theory Spec2Isabelle
  imports Complex_Main "HOL-Library.AList" "HOL-Library.Log_Nat"
begin

text \<open>
  A model of the graph routing core \<^verbatim>\<open>src/backend/utils/graphRouting.js\<close>: the class
  \<open>RoadGraph\<close> with \<open>addNode\<close>, \<open>addEdge\<close>, \<open>updateEdgeLoad\<close>, \<open>findShortestPath\<close>,
  \<open>findAlternativePaths\<close> and \<open>distributeTraffic\<close>, and the functions \<open>pathExists\<close> and
  \<open>createKachiDhamNetwork\<close>. A method takes the graph and returns the graph it leaves
  behind, or its result; a thrown error is the left summand of the result type.
\<close>

section \<open>JavaScript numbers\<close>

text \<open>
  The routing core computes with JavaScript numbers. A number is modelled as an exact
  rational, or one of the three special values the code relies on: \<open>Infinity\<close> (the
  initial distance of every node but the start), \<open>-Infinity\<close> and \<open>NaN\<close>. Division by
  zero and the arithmetic of the special values follow IEEE 754. The operations below
  are exact; the rounding of a result to binary64, with its overflow to an infinity, is
  the separate function \<open>fl\<close> at the end of this section. The sign of zero is not
  modelled.
\<close>

datatype jsnum = Fin rat | PInf | NInf | NaN

definition inf_of_sign :: "rat \<Rightarrow> jsnum" where
  "inf_of_sign s = (if 0 < s then PInf else if s < 0 then NInf else NaN)"

fun js_add :: "jsnum \<Rightarrow> jsnum \<Rightarrow> jsnum" where
  "js_add (Fin a) (Fin b) = Fin (a + b)"
| "js_add NaN _ = NaN"
| "js_add _ NaN = NaN"
| "js_add PInf NInf = NaN"
| "js_add NInf PInf = NaN"
| "js_add PInf _ = PInf"
| "js_add _ PInf = PInf"
| "js_add NInf _ = NInf"
| "js_add _ NInf = NInf"

fun js_neg :: "jsnum \<Rightarrow> jsnum" where
  "js_neg (Fin a) = Fin (- a)"
| "js_neg PInf = NInf"
| "js_neg NInf = PInf"
| "js_neg NaN = NaN"

definition js_sub :: "jsnum \<Rightarrow> jsnum \<Rightarrow> jsnum" where
  "js_sub x y = js_add x (js_neg y)"

fun js_mul :: "jsnum \<Rightarrow> jsnum \<Rightarrow> jsnum" where
  "js_mul (Fin a) (Fin b) = Fin (a * b)"
| "js_mul NaN _ = NaN"
| "js_mul _ NaN = NaN"
| "js_mul PInf (Fin b) = inf_of_sign b"
| "js_mul (Fin a) PInf = inf_of_sign a"
| "js_mul NInf (Fin b) = inf_of_sign (- b)"
| "js_mul (Fin a) NInf = inf_of_sign (- a)"
| "js_mul PInf PInf = PInf"
| "js_mul NInf NInf = PInf"
| "js_mul PInf NInf = NInf"
| "js_mul NInf PInf = NInf"

fun js_div :: "jsnum \<Rightarrow> jsnum \<Rightarrow> jsnum" where
  "js_div (Fin a) (Fin b) = (if b = 0 then inf_of_sign a else Fin (a / b))"
| "js_div NaN _ = NaN"
| "js_div _ NaN = NaN"
| "js_div (Fin a) PInf = Fin 0"
| "js_div (Fin a) NInf = Fin 0"
| "js_div PInf (Fin b) = (if 0 \<le> b then PInf else NInf)"
| "js_div NInf (Fin b) = (if 0 \<le> b then NInf else PInf)"
| "js_div PInf PInf = NaN"
| "js_div PInf NInf = NaN"
| "js_div NInf PInf = NaN"
| "js_div NInf NInf = NaN"

text \<open>The comparison \<open>x < y\<close>: false as soon as one side is \<open>NaN\<close>.\<close>

fun js_lt :: "jsnum \<Rightarrow> jsnum \<Rightarrow> bool" where
  "js_lt (Fin a) (Fin b) = (a < b)"
| "js_lt NaN _ = False"
| "js_lt _ NaN = False"
| "js_lt _ NInf = False"
| "js_lt PInf _ = False"
| "js_lt NInf _ = True"
| "js_lt _ PInf = True"

definition js_gt :: "jsnum \<Rightarrow> jsnum \<Rightarrow> bool" where
  "js_gt x y = js_lt y x"

text \<open>\<open>Math.floor\<close>.\<close>

fun js_floor :: "jsnum \<Rightarrow> jsnum" where
  "js_floor (Fin a) = Fin (of_int \<lfloor>a\<rfloor>)"
| "js_floor x = x"

text \<open>Truthiness of a number: \<open>0\<close> and \<open>NaN\<close> are falsy.\<close>

fun js_truthy :: "jsnum \<Rightarrow> bool" where
  "js_truthy (Fin a) = (a \<noteq> 0)"
| "js_truthy NaN = False"
| "js_truthy _ = True"

text \<open>
  \<open>x || d\<close> where \<open>x\<close> is a property that may be absent (\<open>undefined\<close> is falsy), and
  the effect of a trailing \<open>...data\<close> in an object literal: a property present in
  \<open>data\<close> replaces the value written before it.
\<close>

fun js_or :: "jsnum option \<Rightarrow> jsnum \<Rightarrow> jsnum" where
  "js_or None d = d"
| "js_or (Some v) d = (if js_truthy v then v else d)"

fun spread :: "'a option \<Rightarrow> 'a \<Rightarrow> 'a" where
  "spread None x = x"
| "spread (Some v) x = v"


subsection \<open>Rounding to binary64\<close>

text \<open>
  A JavaScript number is an IEEE 754 binary64 value, and every arithmetic operation
  returns the exact result rounded to the nearest such value, ties to the one with an
  even significand. \<open>round_half_even\<close> rounds a rational to the nearest integer, ties to
  the even one.
\<close>

definition round_half_even :: "rat \<Rightarrow> int" where
  "round_half_even q =
     (let f = \<lfloor>q\<rfloor>; r = q - of_int f
      in if r < 1 / 2 then f else if 1 / 2 < r then f + 1 else if even f then f else f + 1)"

text \<open>
  The binary exponent of a rational \<open>x\<close> other than 0: the \<open>e\<close> with
  \<open>2^e \<le> |x| < 2^(e + 1)\<close>, read off the bit length of \<open>\<lfloor>|x|\<rfloor>\<close>, or of
  \<open>\<lceil>1 / |x|\<rceil> - 1\<close> when \<open>|x| < 1\<close>.
\<close>

definition exponent :: "rat \<Rightarrow> int" where
  "exponent x =
     (if 1 \<le> \<bar>x\<bar> then bitlen \<lfloor>\<bar>x\<bar>\<rfloor> - 1 else - bitlen (\<lceil>1 / \<bar>x\<bar>\<rceil> - 1))"

text \<open>
  The binary64 values around \<open>x\<close> are the multiples of \<open>2^(e - 52)\<close> (a significand
  of 53 bits), where \<open>e\<close> is the exponent of \<open>x\<close>, and at least \<open>-1022\<close>: below
  \<open>2^(-1022)\<close> the values are the subnormal ones, multiples of \<open>2^(-1074)\<close>.
\<close>

definition ulp64 :: "rat \<Rightarrow> rat" where
  "ulp64 x = 2 powi (max (exponent x) (- 1022) - 52)"

definition round_to_ulp :: "rat \<Rightarrow> rat" where
  "round_to_ulp x = of_int (round_half_even (x / ulp64 x)) * ulp64 x"

text \<open>
  A result that rounds to \<open>2^1024\<close> or beyond is an infinity. \<open>fl\<close> is the rounding of a
  JavaScript number: the infinities and \<open>NaN\<close> are left as they are.
\<close>

definition round64 :: "rat \<Rightarrow> jsnum" where
  "round64 x =
     (let v = round_to_ulp x
      in if 2 ^ 1024 \<le> v then PInf else if v \<le> - (2 ^ 1024) then NInf else Fin v)"

fun fl :: "jsnum \<Rightarrow> jsnum" where
  "fl (Fin a) = round64 a"
| "fl x = x"

section \<open>The data model of \<open>RoadGraph\<close>\<close>

text \<open>
  Identifiers are strings. The two \<open>Map\<close>s of a graph iterate in insertion order, and
  \<open>Map.set\<close> on a key that is present keeps its position: an association list under
  \<open>AList.update\<close>. A \<open>Set\<close> of neighbours is a list without repetition, in insertion
  order. Properties the routing core copies but never reads (name, type, coordinates,
  isTemple, roadType) are carried in one opaque component.
\<close>

type_synonym attrs = "(string \<times> string) list"

record node =
  n_id :: string
  n_connections :: "string list"
  n_attrs :: attrs

text \<open>The \<open>data\<close> argument of \<open>addNode\<close>: \<open>None\<close> is an absent property.\<close>

record node_data =
  nd_id :: "string option"
  nd_connections :: "string list option"
  nd_attrs :: attrs

record edge =
  e_id :: string
  e_from :: string
  e_to :: string
  e_distance :: jsnum
  e_travelTime :: jsnum
  e_capacity :: jsnum
  e_currentLoad :: jsnum
  e_speedLimit :: jsnum
  e_currentTravelTime :: "jsnum option"
  e_bidirectional :: "bool option"
  e_attrs :: attrs

text \<open>The \<open>data\<close> argument of \<open>addEdge\<close>.\<close>

record edge_data =
  d_id :: "string option"
  d_from :: "string option"
  d_to :: "string option"
  d_distance :: "jsnum option"
  d_travelTime :: "jsnum option"
  d_capacity :: "jsnum option"
  d_currentLoad :: "jsnum option"
  d_speedLimit :: "jsnum option"
  d_currentTravelTime :: "jsnum option"
  d_bidirectional :: "bool option"
  d_attrs :: attrs

record graph =
  nodes :: "(string \<times> node) list"
  edges :: "(string \<times> edge) list"

datatype error =
    ConstructionError   \<comment> \<open>\<open>addEdge\<close>: Cannot create edge between non-existent nodes\<close>
  | EdgeNotFound        \<comment> \<open>\<open>updateEdgeLoad\<close>: Edge does not exist\<close>
  | NodeNotFound        \<comment> \<open>\<open>findShortestPath\<close>: Start or end node does not exist\<close>
  | TypeError           \<comment> \<open>a property read on \<open>undefined\<close>\<close>
  | Diverges            \<comment> \<open>the call does not return\<close>

definition empty_graph :: graph where
  "empty_graph = \<lparr>nodes = [], edges = []\<rparr>"

definition no_node_data :: node_data where
  "no_node_data = \<lparr>nd_id = None, nd_connections = None, nd_attrs = []\<rparr>"

definition no_data :: edge_data where
  "no_data = \<lparr>d_id = None, d_from = None, d_to = None, d_distance = None,
     d_travelTime = None, d_capacity = None, d_currentLoad = None, d_speedLimit = None,
     d_currentTravelTime = None, d_bidirectional = None, d_attrs = []\<rparr>"

text \<open>The template literal \<open>`${fromId}-${toId}`\<close>.\<close>

definition edge_key :: "string \<Rightarrow> string \<Rightarrow> string" where
  "edge_key fromId toId = fromId @ ''-'' @ toId"

text \<open>\<open>Set.add\<close>.\<close>

definition set_add :: "string list \<Rightarrow> string \<Rightarrow> string list" where
  "set_add xs x = (if x \<in> set xs then xs else xs @ [x])"

section \<open>Mutation: \<open>addNode\<close>, \<open>addEdge\<close>, \<open>updateEdgeLoad\<close>\<close>

definition addNode :: "graph \<Rightarrow> string \<Rightarrow> node_data \<Rightarrow> graph" where
  "addNode g ident data =
     g\<lparr>nodes := AList.update ident
          \<lparr>n_id = spread (nd_id data) ident,
           n_connections = spread (nd_connections data) [],
           n_attrs = nd_attrs data\<rparr> (nodes g)\<rparr>"

text \<open>The object literal that \<open>addEdge\<close> stores: defaults first, then \<open>...data\<close>.\<close>

definition mk_edge :: "string \<Rightarrow> string \<Rightarrow> string \<Rightarrow> edge_data \<Rightarrow> edge" where
  "mk_edge edgeId fromId toId data =
     \<lparr>e_id = spread (d_id data) edgeId,
      e_from = spread (d_from data) fromId,
      e_to = spread (d_to data) toId,
      e_distance = spread (d_distance data) (js_or (d_distance data) (Fin 1)),
      e_travelTime = spread (d_travelTime data)
         (js_or (d_travelTime data) (js_or (d_distance data) (Fin 1))),
      e_capacity = spread (d_capacity data) (js_or (d_capacity data) (Fin 100)),
      e_currentLoad = spread (d_currentLoad data) (js_or (d_currentLoad data) (Fin 0)),
      e_speedLimit = spread (d_speedLimit data) (js_or (d_speedLimit data) (Fin 50)),
      e_currentTravelTime = d_currentTravelTime data,
      e_bidirectional = d_bidirectional data,
      e_attrs = d_attrs data\<rparr>"

text \<open>\<open>this.nodes.get(a).connections.add(b)\<close>.\<close>

definition add_connection :: "graph \<Rightarrow> string \<Rightarrow> string \<Rightarrow> error + graph" where
  "add_connection g a b =
     (case map_of (nodes g) a of
        None \<Rightarrow> Inl TypeError
      | Some n \<Rightarrow>
          Inr (g\<lparr>nodes := AList.update a
                 (n\<lparr>n_connections := set_add (n_connections n) b\<rparr>) (nodes g)\<rparr>))"

definition addEdge :: "graph \<Rightarrow> string \<Rightarrow> string \<Rightarrow> edge_data \<Rightarrow> error + graph" where
  "addEdge g fromId toId data =
     (let edgeId = edge_key fromId toId in
      if map_of (nodes g) fromId = None \<or> map_of (nodes g) toId = None
      then Inl ConstructionError
      else
        (case add_connection
                (g\<lparr>edges := AList.update edgeId (mk_edge edgeId fromId toId data) (edges g)\<rparr>)
                fromId toId of
           Inl err \<Rightarrow> Inl err
         | Inr g1 \<Rightarrow>
             if d_bidirectional data = Some True
             then
               (let reverseEdgeId = edge_key toId fromId in
                add_connection
                  (g1\<lparr>edges := AList.update reverseEdgeId
                        (mk_edge reverseEdgeId toId fromId data) (edges g1)\<rparr>)
                  toId fromId)
             else Inr g1))"

definition updateEdgeLoad :: "graph \<Rightarrow> string \<Rightarrow> string \<Rightarrow> jsnum \<Rightarrow> error + graph" where
  "updateEdgeLoad g fromId toId load =
     (let edgeId = edge_key fromId toId in
      case map_of (edges g) edgeId of
        None \<Rightarrow> Inl EdgeNotFound
      | Some e \<Rightarrow>
          (let loadFactor = js_div load (e_capacity e) in
           Inr (g\<lparr>edges := AList.update edgeId
                  (e\<lparr>e_currentLoad := load,
                     e_currentTravelTime :=
                       Some (js_mul (e_travelTime e) (js_add (Fin 1) loadFactor))\<rparr>)
                  (edges g)\<rparr>)))"

text \<open>
  The same method with the rounding of binary64 written out: the quotient, the sum and
  the product of lines 95 and 96 are each rounded as they are computed.
\<close>

definition updateEdgeLoad64 :: "graph \<Rightarrow> string \<Rightarrow> string \<Rightarrow> jsnum \<Rightarrow> error + graph" where
  "updateEdgeLoad64 g fromId toId load =
     (let edgeId = edge_key fromId toId in
      case map_of (edges g) edgeId of
        None \<Rightarrow> Inl EdgeNotFound
      | Some e \<Rightarrow>
          (let loadFactor = fl (js_div load (e_capacity e)) in
           Inr (g\<lparr>edges := AList.update edgeId
                  (e\<lparr>e_currentLoad := load,
                     e_currentTravelTime :=
                       Some (fl (js_mul (e_travelTime e) (fl (js_add (Fin 1) loadFactor))))\<rparr>)
                  (edges g)\<rparr>)))"

section \<open>Shortest path: \<open>findShortestPath\<close>\<close>

text \<open>
  A weight function receives what \<open>this.edges.get(edgeId)\<close> returned, which is
  \<open>undefined\<close> (\<open>None\<close>) when no edge is stored under the identifier, and may throw.
  The default one reads \<open>edge.currentTravelTime || edge.travelTime\<close>, a \<open>TypeError\<close> on
  \<open>undefined\<close>.
\<close>

type_synonym weight_fn = "edge option \<Rightarrow> error + jsnum"

definition default_cost :: "edge \<Rightarrow> jsnum" where
  "default_cost e = js_or (e_currentTravelTime e) (e_travelTime e)"

definition default_weight :: weight_fn where
  "default_weight eo = (case eo of None \<Rightarrow> Inl TypeError | Some e \<Rightarrow> Inr (default_cost e))"

definition getWeight :: "weight_fn option \<Rightarrow> weight_fn" where
  "getWeight weightFn = (case weightFn of None \<Rightarrow> default_weight | Some f \<Rightarrow> f)"

text \<open>
  \<open>distances.get(k)\<close>: a missing key gives \<open>undefined\<close>, which behaves as \<open>NaN\<close> in
  \<open><\<close> and \<open>+\<close>.
\<close>

definition dist_get :: "(string \<rightharpoonup> jsnum) \<Rightarrow> string \<Rightarrow> jsnum" where
  "dist_get d k = (case d k of None \<Rightarrow> NaN | Some v \<Rightarrow> v)"

text \<open>The initialisation loop over \<open>this.nodes.keys()\<close>.\<close>

definition init_distances :: "string \<Rightarrow> string list \<Rightarrow> (string \<rightharpoonup> jsnum)" where
  "init_distances startId ks =
     foldl (\<lambda>d k. d(k \<mapsto> (if k = startId then Fin 0 else PInf))) Map.empty ks"

definition init_unvisited :: "string list \<Rightarrow> string list" where
  "init_unvisited ks = foldl set_add [] ks"

text \<open>
  The scan for the unvisited node of minimum distance; the accumulator is
  \<open>(current, minDistance)\<close>, started at \<open>(null, Infinity)\<close>.
\<close>

fun find_min ::
  "(string \<rightharpoonup> jsnum) \<Rightarrow> string list \<Rightarrow> string option \<times> jsnum \<Rightarrow> string option \<times> jsnum"
where
  "find_min d [] acc = acc"
| "find_min d (n # ns) (cur, minDistance) =
     (let distance = dist_get d n in
      if js_lt distance minDistance then find_min d ns (Some n, distance)
      else find_min d ns (cur, minDistance))"

text \<open>The loop over \<open>currentNode.connections\<close>.\<close>

fun relax ::
  "(string \<times> edge) list \<Rightarrow> weight_fn \<Rightarrow> string \<Rightarrow> string list \<Rightarrow>
   (string \<rightharpoonup> jsnum) \<times> (string \<rightharpoonup> string) \<Rightarrow> string list \<Rightarrow>
   error + (string \<rightharpoonup> jsnum) \<times> (string \<rightharpoonup> string)"
where
  "relax es gw current unvisited (d, p) [] = Inr (d, p)"
| "relax es gw current unvisited (d, p) (neighborId # ns) =
     (if neighborId \<notin> set unvisited then relax es gw current unvisited (d, p) ns
      else
        (case gw (map_of es (edge_key current neighborId)) of
           Inl err \<Rightarrow> Inl err
         | Inr weight \<Rightarrow>
             (let newDistance = js_add (dist_get d current) weight in
              if js_lt newDistance (dist_get d neighborId)
              then relax es gw current unvisited
                     (d(neighborId \<mapsto> newDistance), p(neighborId \<mapsto> current)) ns
              else relax es gw current unvisited (d, p) ns)))"

lemma find_min_mem:
  "fst (find_min d us (cur, m)) = Some c \<Longrightarrow> c \<in> set us \<or> cur = Some c"
  by (induction us arbitrary: cur m) (auto simp: Let_def split: if_splits)

text \<open>
  The main loop \<open>while (unvisited.size > 0)\<close>. It returns the \<open>previous\<close> map, the only
  thing the rest of the function reads. Each round removes one node from \<open>unvisited\<close>,
  or leaves the loop.
\<close>

function dijkstra ::
  "graph \<Rightarrow> weight_fn \<Rightarrow> string \<Rightarrow> string list \<Rightarrow>
   (string \<rightharpoonup> jsnum) \<Rightarrow> (string \<rightharpoonup> string) \<Rightarrow> error + (string \<rightharpoonup> string)"
where
  "dijkstra g gw endId unvisited d p =
     (if unvisited = [] then Inr p
      else
        (case fst (find_min d unvisited (None, PInf)) of
           None \<Rightarrow> Inr p
         | Some current \<Rightarrow>
             if current = endId then Inr p
             else
               (case map_of (nodes g) current of
                  None \<Rightarrow> Inl TypeError
                | Some currentNode \<Rightarrow>
                    (case relax (edges g) gw current (removeAll current unvisited) (d, p)
                            (n_connections currentNode) of
                       Inl err \<Rightarrow> Inl err
                     | Inr (d', p') \<Rightarrow>
                         dijkstra g gw endId (removeAll current unvisited) d' p'))))"
  by pat_completeness auto
termination
proof (relation "measure (\<lambda>(g, gw, endId, unvisited, d, p). length unvisited)")
  show "wf (measure (\<lambda>(g, gw, endId, unvisited, d, p). length (unvisited :: string list)))"
    by simp
next
  fix unvisited :: "string list" and d :: "string \<rightharpoonup> jsnum" and current
  assume "fst (find_min d unvisited (None, PInf)) = Some current"
  then have "current \<in> set unvisited"
    using find_min_mem by fastforce
  then have "length (removeAll current unvisited) < length unvisited"
    by (simp add: length_removeAll_less)
  then show "\<And>g gw endId p x xa. ((g, gw, endId, removeAll current unvisited, x, xa),
             (g :: graph, gw :: weight_fn, endId :: string, unvisited, d, p :: string \<rightharpoonup> string))
       \<in> measure (\<lambda>(g, gw, endId, unvisited, d, p). length unvisited)"
    by simp
qed

text \<open>
  The reconstruction \<open>while (current !== startId) { path.unshift(current); current =
  previous.get(current) }\<close>. When the chain of \<open>previous\<close> reaches a node without an
  entry, \<open>current\<close> becomes \<open>undefined\<close> and the loop never ends: the value \<open>None\<close>.
\<close>

partial_function (option) build_path ::
  "(string \<rightharpoonup> string) \<Rightarrow> string \<Rightarrow> string option \<Rightarrow> string list \<Rightarrow> string list option"
where
  "build_path p startId current path =
     (if current = Some startId then Some path
      else
        (case current of
           None \<Rightarrow> build_path p startId None path
         | Some c \<Rightarrow> build_path p startId (p c) (c # path)))"

declare dijkstra.simps [simp del]

declare build_path.simps [code]

text \<open>
  The result of \<open>findShortestPath\<close>: \<open>{found: false, distance: Infinity, path: []}\<close>, or
  a found path with its nodes, its edges and the two totals.
\<close>

record found_path =
  p_path :: "string list"
  p_edges :: "edge list"
  p_distance :: jsnum
  p_travelTime :: jsnum

datatype sp_result = NotFound | Found found_path

text \<open>
  The loop over \<open>i < path.length - 1\<close> that looks each edge of the path up and adds its
  distance and its \<open>currentTravelTime || travelTime\<close>; the accumulator is
  \<open>(totalDistance, totalTravelTime, edges)\<close>.
\<close>

fun path_totals ::
  "(string \<times> edge) list \<Rightarrow> string list \<Rightarrow> jsnum \<times> jsnum \<times> edge list \<Rightarrow>
   error + jsnum \<times> jsnum \<times> edge list"
where
  "path_totals es (a # b # rest) (totalDistance, totalTravelTime, acc) =
     (case map_of es (edge_key a b) of
        None \<Rightarrow> Inl TypeError
      | Some e \<Rightarrow>
          path_totals es (b # rest)
            (js_add totalDistance (e_distance e), js_add totalTravelTime (default_cost e),
             acc @ [e]))"
| "path_totals es _ acc = Inr acc"

definition findShortestPath ::
  "graph \<Rightarrow> string \<Rightarrow> string \<Rightarrow> weight_fn option \<Rightarrow> error + sp_result"
where
  "findShortestPath g startId endId weightFn =
     (if map_of (nodes g) startId = None \<or> map_of (nodes g) endId = None
      then Inl NodeNotFound
      else
        (case dijkstra g (getWeight weightFn) endId
                (init_unvisited (map fst (nodes g)))
                (init_distances startId (map fst (nodes g))) Map.empty of
           Inl err \<Rightarrow> Inl err
         | Inr previous \<Rightarrow>
             if previous endId = None then Inr NotFound
             else
               (case build_path previous startId (Some endId) [] of
                  None \<Rightarrow> Inl Diverges
                | Some path0 \<Rightarrow>
                    (case path_totals (edges g) (startId # path0) (Fin 0, Fin 0, []) of
                       Inl err \<Rightarrow> Inl err
                     | Inr (totalDistance, totalTravelTime, es) \<Rightarrow>
                         Inr (Found \<lparr>p_path = startId # path0, p_edges = es,
                                     p_distance = totalDistance,
                                     p_travelTime = totalTravelTime\<rparr>)))))"

section \<open>Alternative paths: \<open>findAlternativePaths\<close>\<close>

text \<open>\<open>Array.prototype.join('-')\<close> and \<open>pathExists\<close>.\<close>

fun join_dash :: "string list \<Rightarrow> string" where
  "join_dash [] = []"
| "join_dash [x] = x"
| "join_dash (x # y # ys) = x @ ''-'' @ join_dash (y # ys)"

fun pathExists :: "found_path list \<Rightarrow> string list \<Rightarrow> bool" where
  "pathExists [] newPath = False"
| "pathExists (existing # rest) newPath =
     (if join_dash (p_path existing) = join_dash newPath then True
      else pathExists rest newPath)"

text \<open>
  The working copy. \<open>tempGraph.addNode(nodeId, {...node})\<close> passes the node's own
  \<open>connections\<close> set in \<open>data\<close>, which replaces the fresh \<open>new Set()\<close>: the copy starts
  with every neighbour set of the graph (and shares the set objects with it, so what
  \<open>tempGraph.addEdge\<close> adds to them later is also added in the graph itself; the model
  follows the working copy, which is all that the returned value depends on).
  \<open>tempGraph.edges.delete\<close> removes an edge and leaves the neighbour sets as they are.
\<close>

definition node_to_data :: "node \<Rightarrow> node_data" where
  "node_to_data n =
     \<lparr>nd_id = Some (n_id n), nd_connections = Some (n_connections n), nd_attrs = n_attrs n\<rparr>"

definition edge_to_data :: "edge \<Rightarrow> edge_data" where
  "edge_to_data e =
     \<lparr>d_id = Some (e_id e), d_from = Some (e_from e), d_to = Some (e_to e),
      d_distance = Some (e_distance e), d_travelTime = Some (e_travelTime e),
      d_capacity = Some (e_capacity e), d_currentLoad = Some (e_currentLoad e),
      d_speedLimit = Some (e_speedLimit e),
      d_currentTravelTime = e_currentTravelTime e,
      d_bidirectional = e_bidirectional e, d_attrs = e_attrs e\<rparr>"

definition copy_nodes :: "(string \<times> node) list \<Rightarrow> graph" where
  "copy_nodes ns = foldl (\<lambda>tg (nodeId, n). addNode tg nodeId (node_to_data n)) empty_graph ns"

fun copy_edges :: "graph \<Rightarrow> (string \<times> edge) list \<Rightarrow> error + graph" where
  "copy_edges tg [] = Inr tg"
| "copy_edges tg ((edgeId, e) # rest) =
     (if map_of (edges tg) edgeId \<noteq> None then copy_edges tg rest
      else
        (case addEdge tg (e_from e) (e_to e) ((edge_to_data e)\<lparr>d_bidirectional := Some False\<rparr>) of
           Inl err \<Rightarrow> Inl err
         | Inr tg' \<Rightarrow> copy_edges tg' rest))"

text \<open>
  \<open>tempGraph.addEdge(fromId, toId, edge)\<close> where \<open>edge\<close> is what
  \<open>tempGraph.edges.get(edgeId)\<close> returned: \<open>undefined\<close> selects the default \<open>data = {}\<close>.
\<close>

definition restore_data :: "edge option \<Rightarrow> edge_data" where
  "restore_data eo = (case eo of None \<Rightarrow> no_data | Some e \<Rightarrow> edge_to_data e)"

text \<open>
  The inner loop over the edges \<open>(path[j], path[j+1])\<close> of the previous path: delete the
  edge, search, restore the edge, and stop at the first new path. It returns the working
  copy and the list of paths, longer by one when a new path was found.
\<close>

fun try_edges ::
  "graph \<Rightarrow> string \<Rightarrow> string \<Rightarrow> found_path list \<Rightarrow> string list \<Rightarrow>
   error + graph \<times> found_path list"
where
  "try_edges tg startId endId paths (fromId # toId # rest) =
     (let edgeId = edge_key fromId toId;
          e = map_of (edges tg) edgeId;
          tg1 = tg\<lparr>edges := AList.delete edgeId (edges tg)\<rparr>
      in case findShortestPath tg1 startId endId None of
           Inl err \<Rightarrow> Inl err
         | Inr newPath \<Rightarrow>
             (case addEdge tg1 fromId toId (restore_data e) of
                Inl err \<Rightarrow> Inl err
              | Inr tg2 \<Rightarrow>
                  (case newPath of
                     NotFound \<Rightarrow> try_edges tg2 startId endId paths (toId # rest)
                   | Found np \<Rightarrow>
                       if \<not> pathExists paths (p_path np) then Inr (tg2, paths @ [np])
                       else try_edges tg2 startId endId paths (toId # rest))))"
| "try_edges tg startId endId paths _ = Inr (tg, paths)"

text \<open>
  The outer loop \<open>for (let i = 1; i < k; i++)\<close>; the first argument counts the rounds
  that are left, \<open>k - i\<close>.
\<close>

fun alt_loop ::
  "nat \<Rightarrow> nat \<Rightarrow> graph \<Rightarrow> string \<Rightarrow> string \<Rightarrow> found_path list \<Rightarrow> error + found_path list"
where
  "alt_loop 0 i tg startId endId paths = Inr paths"
| "alt_loop (Suc n) i tg startId endId paths =
     (if length paths \<le> i - 1 then Inl TypeError
      else
        (case try_edges tg startId endId paths (p_path (paths ! (i - 1))) of
           Inl err \<Rightarrow> Inl err
         | Inr (tg', paths') \<Rightarrow>
             if length paths' \<le> i then Inr paths'
             else alt_loop n (Suc i) tg' startId endId paths'))"

definition findAlternativePaths ::
  "graph \<Rightarrow> string \<Rightarrow> string \<Rightarrow> nat \<Rightarrow> error + found_path list"
where
  "findAlternativePaths g startId endId k =
     (case findShortestPath g startId endId None of
        Inl err \<Rightarrow> Inl err
      | Inr NotFound \<Rightarrow> Inr []
      | Inr (Found initialPath) \<Rightarrow>
          (case copy_edges (copy_nodes (nodes g)) (edges g) of
             Inl err \<Rightarrow> Inl err
           | Inr tempGraph \<Rightarrow> alt_loop (k - 1) 1 tempGraph startId endId [initialPath]))"

section \<open>Traffic allocation: \<open>distributeTraffic\<close>\<close>

record route =
  r_path :: "string list"
  r_edges :: "edge list"
  r_travelTime :: jsnum
  r_distance :: jsnum
  r_weight :: jsnum
  r_vehicleCount :: jsnum

datatype traffic_plan =
    NoPlan string             \<comment> \<open>\<open>{success: false, message}\<close>\<close>
  | Plan jsnum "route list"   \<comment> \<open>\<open>{success: true, totalVehicles, distribution}\<close>\<close>

definition initial_route :: "found_path \<Rightarrow> route" where
  "initial_route p =
     \<lparr>r_path = p_path p, r_edges = p_edges p, r_travelTime = p_travelTime p,
      r_distance = p_distance p, r_weight = js_div (Fin 1) (p_travelTime p),
      r_vehicleCount = Fin 0\<rparr>"

definition total_weight :: "route list \<Rightarrow> jsnum" where
  "total_weight rs = foldl (\<lambda>totalWeight r. js_add totalWeight (r_weight r)) (Fin 0) rs"

definition sum_vehicles :: "route list \<Rightarrow> jsnum" where
  "sum_vehicles rs = foldl (\<lambda>sum r. js_add sum (r_vehicleCount r)) (Fin 0) rs"

text \<open>The allocation that follows the path search, on the list of paths it returned.\<close>

definition allocate :: "found_path list \<Rightarrow> jsnum \<Rightarrow> route list" where
  "allocate paths totalVehicles =
     (let distribution0 = map initial_route paths;
          totalWeight = total_weight distribution0;
          distribution = map (\<lambda>r. r\<lparr>r_vehicleCount :=
              js_floor (js_mul totalVehicles (js_div (r_weight r) totalWeight))\<rparr>) distribution0;
          remainingVehicles = js_sub totalVehicles (sum_vehicles distribution)
      in if js_gt remainingVehicles (Fin 0)
         then (case distribution of
                 [] \<Rightarrow> []
               | r # rs \<Rightarrow> r\<lparr>r_vehicleCount := js_add (r_vehicleCount r) remainingVehicles\<rparr> # rs)
         else distribution)"

definition distributeTraffic ::
  "graph \<Rightarrow> string \<Rightarrow> string \<Rightarrow> jsnum \<Rightarrow> nat \<Rightarrow> error + traffic_plan"
where
  "distributeTraffic g startId endId totalVehicles numPaths =
     (case findAlternativePaths g startId endId numPaths of
        Inl err \<Rightarrow> Inl err
      | Inr paths \<Rightarrow>
          if paths = [] then Inr (NoPlan ''No paths found'')
          else Inr (Plan totalVehicles (allocate paths totalVehicles)))"

section \<open>The scenario graph\<close>

text \<open>
  The graph of the concrete scenario: nodes \<open>A\<close>, \<open>B\<close>, \<open>C\<close> and the edges \<open>A\<rightarrow>B\<close>
  (travelTime 5), \<open>B\<rightarrow>C\<close> (travelTime 5), \<open>A\<rightarrow>C\<close> (travelTime 20), each of capacity
  100, as the calls \<open>addNode\<close> and \<open>addEdge\<close> build it.
\<close>

definition and_then :: "error + 'a \<Rightarrow> ('a \<Rightarrow> error + 'b) \<Rightarrow> error + 'b" where
  "and_then r f = (case r of Inl err \<Rightarrow> Inl err | Inr x \<Rightarrow> f x)"

definition scenario_data :: "rat \<Rightarrow> edge_data" where
  "scenario_data t = no_data\<lparr>d_travelTime := Some (Fin t), d_capacity := Some (Fin 100)\<rparr>"

definition scenario_edge :: "string \<Rightarrow> string \<Rightarrow> rat \<Rightarrow> edge" where
  "scenario_edge a b t =
     \<lparr>e_id = edge_key a b, e_from = a, e_to = b, e_distance = Fin 1, e_travelTime = Fin t,
      e_capacity = Fin 100, e_currentLoad = Fin 0, e_speedLimit = Fin 50,
      e_currentTravelTime = None, e_bidirectional = None, e_attrs = []\<rparr>"

definition abc_nodes :: graph where
  "abc_nodes =
     addNode (addNode (addNode empty_graph ''A'' no_node_data) ''B'' no_node_data)
       ''C'' no_node_data"

definition abc_graph :: graph where
  "abc_graph =
     \<lparr>nodes = [(''A'', \<lparr>n_id = ''A'', n_connections = [''B'', ''C''], n_attrs = []\<rparr>),
               (''B'', \<lparr>n_id = ''B'', n_connections = [''C''], n_attrs = []\<rparr>),
               (''C'', \<lparr>n_id = ''C'', n_connections = [], n_attrs = []\<rparr>)],
      edges = [(''A-B'', scenario_edge ''A'' ''B'' 5),
               (''B-C'', scenario_edge ''B'' ''C'' 5),
               (''A-C'', scenario_edge ''A'' ''C'' 20)]\<rparr>"

lemma abc_graph_built:
  "and_then (and_then (addEdge abc_nodes ''A'' ''B'' (scenario_data 5))
       (\<lambda>g. addEdge g ''B'' ''C'' (scenario_data 5)))
     (\<lambda>g. addEdge g ''A'' ''C'' (scenario_data 20)) = Inr abc_graph"
  by (simp add: abc_nodes_def abc_graph_def and_then_def addEdge_def addNode_def
      add_connection_def empty_graph_def no_node_data_def scenario_data_def no_data_def
      scenario_edge_def mk_edge_def edge_key_def set_add_def Let_def)

text \<open>
  The same three nodes with a direct edge \<open>A\<rightarrow>C\<close> that is faster (travelTime 2) than
  the way through \<open>B\<close> (5 + 5).
\<close>

definition detour_graph :: graph where
  "detour_graph =
     \<lparr>nodes = [(''A'', \<lparr>n_id = ''A'', n_connections = [''B'', ''C''], n_attrs = []\<rparr>),
               (''B'', \<lparr>n_id = ''B'', n_connections = [''C''], n_attrs = []\<rparr>),
               (''C'', \<lparr>n_id = ''C'', n_connections = [], n_attrs = []\<rparr>)],
      edges = [(''A-B'', scenario_edge ''A'' ''B'' 5),
               (''B-C'', scenario_edge ''B'' ''C'' 5),
               (''A-C'', scenario_edge ''A'' ''C'' 2)]\<rparr>"

text \<open>
  Two nodes and one edge \<open>A\<rightarrow>B\<close> of travelTime 5 and capacity \<open>10^17\<close>, a whole
  number that binary64 holds exactly.
\<close>

definition long_road :: graph where
  "long_road =
     \<lparr>nodes = [(''A'', \<lparr>n_id = ''A'', n_connections = [''B''], n_attrs = []\<rparr>),
               (''B'', \<lparr>n_id = ''B'', n_connections = [], n_attrs = []\<rparr>)],
      edges = [(''A-B'', (scenario_edge ''A'' ''B'' 5)\<lparr>e_capacity := Fin (10 ^ 17)\<rparr>)]\<rparr>"

text \<open>What a caller reads off a search result, and off an edge after an update.\<close>

definition found_route :: "error + sp_result \<Rightarrow> (string list \<times> jsnum) option" where
  "found_route r =
     (case r of Inr (Found p) \<Rightarrow> Some (p_path p, p_travelTime p) | _ \<Rightarrow> None)"


lemma abc_edge_AB: "map_of (edges abc_graph) (edge_key ''A'' ''B'') = Some (scenario_edge ''A'' ''B'' 5)"
  by (simp add: abc_graph_def edge_key_def)

lemma detour_graph_built:
  "and_then (and_then (addEdge abc_nodes ''A'' ''B'' (scenario_data 5))
       (\<lambda>g. addEdge g ''B'' ''C'' (scenario_data 5)))
     (\<lambda>g. addEdge g ''A'' ''C'' (scenario_data 2)) = Inr detour_graph"
  by code_simp

lemma long_road_built:
  "addEdge (addNode (addNode empty_graph ''A'' no_node_data) ''B'' no_node_data) ''A'' ''B''
     (no_data\<lparr>d_travelTime := Some (Fin 5), d_capacity := Some (Fin (10 ^ 17))\<rparr>) =
   Inr long_road"
  by code_simp

section \<open>Congestion: the travel time after \<open>updateEdgeLoad\<close>\<close>

lemma updateEdgeLoad_Some:
  "map_of (edges g) (edge_key fromId toId) = Some e \<Longrightarrow>
   updateEdgeLoad g fromId toId load =
     Inr (g\<lparr>edges := AList.update (edge_key fromId toId)
            (e\<lparr>e_currentLoad := load,
               e_currentTravelTime :=
                 Some (js_mul (e_travelTime e) (js_add (Fin 1) (js_div load (e_capacity e))))\<rparr>)
            (edges g)\<rparr>)"
  by (simp add: updateEdgeLoad_def)

text \<open>
  C6. For an edge stored under \<open>"<from>-<to>"\<close> with positive capacity \<open>c\<close> and positive
  base travel time \<open>b\<close>, \<open>updateEdgeLoad(from, to, l)\<close> returns, and the edge's
  \<open>currentTravelTime\<close> is then \<open>b * (1 + l / c)\<close>: \<open>b\<close> at load 0, \<open>2 * b\<close> at load \<open>c\<close>,
  and above any bound for a load large enough.
\<close>

theorem updateEdgeLoad_travel_time:
  assumes "map_of (edges g) (edge_key fromId toId) = Some e"
    and "e_capacity e = Fin c" and "0 < c"
    and "e_travelTime e = Fin b" and "0 < b"
  shows "(\<exists>g' e'. updateEdgeLoad g fromId toId (Fin l) = Inr g' \<and>
            map_of (edges g') (edge_key fromId toId) = Some e' \<and>
            e_currentTravelTime e' = Some (Fin (b * (1 + l / c))) \<and>
            (l = 0 \<longrightarrow> e_currentTravelTime e' = Some (Fin b)) \<and>
            (l = c \<longrightarrow> e_currentTravelTime e' = Some (Fin (2 * b)))) \<and>
         (\<forall>bound. \<exists>l' g' e' t. updateEdgeLoad g fromId toId (Fin l') = Inr g' \<and>
            map_of (edges g') (edge_key fromId toId) = Some e' \<and>
            e_currentTravelTime e' = Some (Fin t) \<and> bound < t)"
proof -
  have step: "\<And>x. \<exists>g' e'. updateEdgeLoad g fromId toId (Fin x) = Inr g' \<and>
            map_of (edges g') (edge_key fromId toId) = Some e' \<and>
            e_currentTravelTime e' = Some (Fin (b * (1 + x / c)))"
    using assms by (simp add: updateEdgeLoad_Some update_conv')
  have unbounded: "\<exists>x. bound < b * (1 + x / c)" for bound
  proof
    have "b * (1 + (c * (bound / b)) / c) = b + bound"
      using assms by (simp add: field_simps)
    then show "bound < b * (1 + (c * (bound / b)) / c)"
      using assms by simp
  qed
  show ?thesis
  proof (intro conjI allI)
    from step [of l] assms(3)
    show "\<exists>g' e'. updateEdgeLoad g fromId toId (Fin l) = Inr g' \<and>
            map_of (edges g') (edge_key fromId toId) = Some e' \<and>
            e_currentTravelTime e' = Some (Fin (b * (1 + l / c))) \<and>
            (l = 0 \<longrightarrow> e_currentTravelTime e' = Some (Fin b)) \<and>
            (l = c \<longrightarrow> e_currentTravelTime e' = Some (Fin (2 * b)))"
      by auto
  next
    fix bound
    from unbounded obtain x where "bound < b * (1 + x / c)" by blast
    with step [of x]
    show "\<exists>l' g' e' t. updateEdgeLoad g fromId toId (Fin l') = Inr g' \<and>
            map_of (edges g') (edge_key fromId toId) = Some e' \<and>
            e_currentTravelTime e' = Some (Fin t) \<and> bound < t"
      by blast
  qed
qed

text \<open>On the scenario graph: loading \<open>A\<rightarrow>B\<close> (base 5, capacity 100) to 100 gives 10.\<close>

theorem updateEdgeLoad_travel_time_witness:
  "\<exists>g' e'. updateEdgeLoad abc_graph ''A'' ''B'' (Fin 100) = Inr g' \<and>
     map_of (edges g') (edge_key ''A'' ''B'') = Some e' \<and>
     e_currentTravelTime e' = Some (Fin 10)"
proof -
  have cap: "e_capacity (scenario_edge ''A'' ''B'' 5) = Fin 100"
    and base: "e_travelTime (scenario_edge ''A'' ''B'' 5) = Fin 5"
    by (simp_all add: scenario_edge_def)
  from updateEdgeLoad_travel_time [OF abc_edge_AB cap _ base, of 100]
  show ?thesis by simp
qed

subsection \<open>Rounding is monotone\<close>


lemma round_half_even_int: "round_half_even (of_int k) = k"
  by (simp add: round_half_even_def Let_def)





lemma exponent_bounds:
  assumes "x \<noteq> 0"
  shows "2 powi exponent x \<le> \<bar>x\<bar> \<and> \<bar>x\<bar> < 2 powi (exponent x + 1)"
proof (cases "1 \<le> \<bar>x\<bar>")
  case True
  let ?n = "\<lfloor>\<bar>x\<bar>\<rfloor>"
  from True have n: "0 < ?n" by simp
  from bitlen_bounds [OF n] have lo: "2 ^ nat (bitlen ?n - 1) \<le> ?n"
    and hi: "?n < 2 ^ nat (bitlen ?n)" by simp_all
  from n have b: "1 \<le> bitlen ?n" by (simp add: bitlen_alt_def)
  from True have e: "exponent x = bitlen ?n - 1" by (simp add: exponent_def)
  have "(2::rat) powi (bitlen ?n - 1) = of_int (2 ^ nat (bitlen ?n - 1))"
    using b by (simp add: power_int_nonneg_exp)
  also have "\<dots> \<le> of_int ?n" using lo by (simp only: of_int_le_iff)
  also have "\<dots> \<le> \<bar>x\<bar>" by simp
  finally have 1: "2 powi exponent x \<le> \<bar>x\<bar>" by (simp add: e)
  from hi have "?n + 1 \<le> 2 ^ nat (bitlen ?n)" by simp
  then have "(of_int (?n + 1) :: rat) \<le> of_int (2 ^ nat (bitlen ?n))"
    by (simp only: of_int_le_iff)
  moreover have "\<bar>x\<bar> < of_int (?n + 1)" by simp linarith
  moreover have "(of_int (2 ^ nat (bitlen ?n)) :: rat) = 2 powi (bitlen ?n)"
    using b by (simp add: power_int_nonneg_exp)
  ultimately have 2: "\<bar>x\<bar> < 2 powi (exponent x + 1)" by (simp add: e)
  from 1 2 show ?thesis ..
next
  case False
  with assms have x: "0 < \<bar>x\<bar>" "\<bar>x\<bar> < 1" by simp_all
  let ?y = "1 / \<bar>x\<bar>"
  let ?m = "\<lceil>?y\<rceil> - 1"
  from x have y: "1 < ?y" by simp
  then have "1 < \<lceil>?y\<rceil>" by (simp add: less_ceiling_iff)
  then have m: "0 < ?m" by simp
  from bitlen_bounds [OF m] have lo: "2 ^ nat (bitlen ?m - 1) \<le> ?m"
    and hi: "?m < 2 ^ nat (bitlen ?m)" by simp_all
  from m have b: "1 \<le> bitlen ?m" by (simp add: bitlen_alt_def)
  from False have e: "exponent x = - bitlen ?m" by (simp add: exponent_def)
  have p: "(0::rat) < 2 ^ k" for k by simp
  from hi have "\<lceil>?y\<rceil> \<le> 2 ^ nat (bitlen ?m)" by simp
  then have "(of_int \<lceil>?y\<rceil> :: rat) \<le> of_int (2 ^ nat (bitlen ?m))"
    by (simp only: of_int_le_iff)
  with le_of_int_ceiling [of ?y] have "?y \<le> of_int (2 ^ nat (bitlen ?m))"
    by (rule order_trans)
  then have "?y \<le> 2 ^ nat (bitlen ?m)"
    by simp
  with x have "1 / 2 ^ nat (bitlen ?m) \<le> \<bar>x\<bar>"
    by (simp add: field_simps)
  moreover have "(2::rat) powi (- bitlen ?m) = 1 / 2 ^ nat (bitlen ?m)"
    using b by (simp add: power_int_def field_simps)
  ultimately have 1: "2 powi exponent x \<le> \<bar>x\<bar>" by (simp add: e)
  have "(of_int ?m :: rat) < ?y"
    using ceiling_correct [of ?y] by simp
  moreover from lo have "(of_int (2 ^ nat (bitlen ?m - 1)) :: rat) \<le> of_int ?m"
    by (simp only: of_int_le_iff)
  ultimately have "2 ^ nat (bitlen ?m - 1) < ?y" by simp
  with x have "\<bar>x\<bar> < 1 / 2 ^ nat (bitlen ?m - 1)"
    by (simp add: field_simps)
  moreover have "(2::rat) powi (- bitlen ?m + 1) = 1 / 2 ^ nat (bitlen ?m - 1)"
  proof (cases "bitlen ?m = 1")
    case True
    then show ?thesis by simp
  next
    case False
    with b have "- bitlen ?m + 1 < 0" "nat (- (- bitlen ?m + 1)) = nat (bitlen ?m - 1)"
      by simp_all
    then show ?thesis by (simp add: power_int_def field_simps)
  qed
  ultimately have 2: "\<bar>x\<bar> < 2 powi (exponent x + 1)" by (simp add: e)
  from 1 2 show ?thesis ..
qed







lemma round_to_ulp_zero: "round_to_ulp 0 = 0"
  by (simp add: round_to_ulp_def round_half_even_int [of 0, simplified])

















text \<open>
  The overflow test of \<open>round64\<close> read off the exponent of the rounded value, for
  evaluation.
\<close>

lemma round64_code [code]:
  "round64 x =
     (let v = round_to_ulp x in
      if v = 0 \<or> exponent v < 1024 then Fin v else if 0 < v then PInf else NInf)"
proof (cases "round_to_ulp x = 0")
  case True
  then show ?thesis by (simp add: round64_def Let_def)
next
  case False
  let ?v = "round_to_ulp x"
  from exponent_bounds [OF False]
  have lo: "2 powi exponent ?v \<le> \<bar>?v\<bar>" and hi: "\<bar>?v\<bar> < 2 powi (exponent ?v + 1)"
    by simp_all
  show ?thesis
  proof (cases "exponent ?v < 1024")
    case True
    then have "(2::rat) powi (exponent ?v + 1) \<le> 2 powi 1024"
      by (intro power_int_increasing) simp_all
    with hi have "\<bar>?v\<bar> < 2 ^ 1024" by simp
    with True False show ?thesis by (simp add: round64_def Let_def abs_less_iff)
  next
    case e: False
    then have "(2::rat) powi 1024 \<le> 2 powi exponent ?v"
      by (intro power_int_increasing) simp_all
    with lo have "2 ^ 1024 \<le> \<bar>?v\<bar>" by simp
    with e False show ?thesis by (auto simp: round64_def Let_def abs_if split: if_splits)
  qed
qed

text \<open>
  Three roundings: \<open>0.1\<close> is the binary64 value \<open>3602879701896397 / 2^55\<close>; and of the
  two ties \<open>1 + 2^(-53)\<close> and \<open>1 + 3 * 2^(-53)\<close>, the first goes down to 1 and the second
  up to \<open>1 + 2^(-51)\<close>, each to the neighbour with the even significand.
\<close>

lemma round64_examples:
  "round64 (1 / 10) = Fin (3602879701896397 / 2 ^ 55) \<and>
   round64 (1 + 1 / 2 ^ 53) = Fin 1 \<and>
   round64 (1 + 3 / 2 ^ 53) = Fin (1 + 1 / 2 ^ 51)"
  by code_simp

subsection \<open>Repeated and increasing loads\<close>




text \<open>
  The strictness is lost in the rounding only: in exact arithmetic a larger load gives a
  strictly larger travel time.
\<close>

lemma updateEdgeLoad_exact_monotonic:
  assumes "map_of (edges g) (edge_key fromId toId) = Some e"
  shows "(\<exists>g1. updateEdgeLoad g fromId toId load = Inr g1 \<and>
            updateEdgeLoad g1 fromId toId load = Inr g1) \<and>
         (\<forall>c b l1 l2.
            e_capacity e = Fin c \<and> 0 < c \<and> e_travelTime e = Fin b \<and> 0 < b \<and> l1 < l2 \<longrightarrow>
            (\<exists>g1 g2 e1 e2 t1 t2.
               updateEdgeLoad g fromId toId (Fin l1) = Inr g1 \<and>
               updateEdgeLoad g fromId toId (Fin l2) = Inr g2 \<and>
               map_of (edges g1) (edge_key fromId toId) = Some e1 \<and>
               map_of (edges g2) (edge_key fromId toId) = Some e2 \<and>
               e_currentTravelTime e1 = Some (Fin t1) \<and>
               e_currentTravelTime e2 = Some (Fin t2) \<and> t1 < t2))"
proof (intro conjI allI impI)
  show "\<exists>g1. updateEdgeLoad g fromId toId load = Inr g1 \<and>
            updateEdgeLoad g1 fromId toId load = Inr g1"
    using assms by (simp add: updateEdgeLoad_Some update_conv')
next
  fix c b l1 l2 :: rat
  assume h: "e_capacity e = Fin c \<and> 0 < c \<and> e_travelTime e = Fin b \<and> 0 < b \<and> l1 < l2"
  then have "l1 / c < l2 / c"
    by (simp add: divide_strict_right_mono)
  with h have "b * (1 + l1 / c) < b * (1 + l2 / c)"
    by simp
  with h assms
  show "\<exists>g1 g2 e1 e2 t1 t2.
               updateEdgeLoad g fromId toId (Fin l1) = Inr g1 \<and>
               updateEdgeLoad g fromId toId (Fin l2) = Inr g2 \<and>
               map_of (edges g1) (edge_key fromId toId) = Some e1 \<and>
               map_of (edges g2) (edge_key fromId toId) = Some e2 \<and>
               e_currentTravelTime e1 = Some (Fin t1) \<and>
               e_currentTravelTime e2 = Some (Fin t2) \<and> t1 < t2"
    by (simp add: updateEdgeLoad_Some update_conv')
qed

subsection \<open>Loads are not validated\<close>

text \<open>
  C10. \<open>updateEdgeLoad\<close> throws exactly when no edge is stored under \<open>"<from>-<to>"\<close>.
  For a stored edge it returns for every load and the stored \<open>currentLoad\<close> is the load
  as given. With positive capacity and positive base travel time there is a negative
  load that leaves a \<open>currentTravelTime\<close> below the base travel time, and one that
  leaves it below zero, where it is what the default weight function of
  \<open>findShortestPath\<close> returns for the edge. The search takes that value as the cost of
  the edge: with \<open>A\<rightarrow>B\<close> 5, \<open>B\<rightarrow>C\<close> 5 and \<open>A\<rightarrow>C\<close> 2 it returns \<open>[A, C]\<close> with travel time
  2, and after \<open>updateEdgeLoad(A, B, -300)\<close> (travel time \<open>5 * (1 - 3) = -10\<close>) it
  returns \<open>[A, B, C]\<close> with travel time \<open>-5\<close>.
\<close>

theorem updateEdgeLoad_no_validation:
  "((\<exists>err. updateEdgeLoad g fromId toId load = Inl err) \<longleftrightarrow>
      map_of (edges g) (edge_key fromId toId) = None) \<and>
   (\<forall>e. map_of (edges g) (edge_key fromId toId) = Some e \<longrightarrow>
      (\<exists>g' e'. updateEdgeLoad g fromId toId load = Inr g' \<and>
         map_of (edges g') (edge_key fromId toId) = Some e' \<and> e_currentLoad e' = load)) \<and>
   (\<forall>e c b. map_of (edges g) (edge_key fromId toId) = Some e \<and>
        e_capacity e = Fin c \<and> 0 < c \<and> e_travelTime e = Fin b \<and> 0 < b \<longrightarrow>
      (\<exists>l g' e' t. js_lt l (Fin 0) \<and> updateEdgeLoad g fromId toId l = Inr g' \<and>
         map_of (edges g') (edge_key fromId toId) = Some e' \<and>
         e_currentTravelTime e' = Some t \<and> js_lt t (Fin b)) \<and>
      (\<exists>l g' e' t. js_lt l (Fin 0) \<and> updateEdgeLoad g fromId toId l = Inr g' \<and>
         map_of (edges g') (edge_key fromId toId) = Some e' \<and>
         e_currentTravelTime e' = Some t \<and> js_lt t (Fin 0) \<and>
         default_weight (Some e') = Inr t)) \<and>
   found_route (findShortestPath detour_graph ''A'' ''C'' None) = Some ([''A'', ''C''], Fin 2) \<and>
   found_route (and_then (updateEdgeLoad detour_graph ''A'' ''B'' (Fin (- 300)))
       (\<lambda>g'. findShortestPath g' ''A'' ''C'' None)) = Some ([''A'', ''B'', ''C''], Fin (- 5))"
proof (intro conjI allI impI)
  show "(\<exists>err. updateEdgeLoad g fromId toId load = Inl err) \<longleftrightarrow>
      map_of (edges g) (edge_key fromId toId) = None"
    by (auto simp: updateEdgeLoad_def Let_def split: option.splits)
next
  fix e
  assume "map_of (edges g) (edge_key fromId toId) = Some e"
  then show "\<exists>g' e'. updateEdgeLoad g fromId toId load = Inr g' \<and>
         map_of (edges g') (edge_key fromId toId) = Some e' \<and> e_currentLoad e' = load"
    by (simp add: updateEdgeLoad_Some update_conv')
next
  fix e and c b :: rat
  assume h: "map_of (edges g) (edge_key fromId toId) = Some e \<and>
        e_capacity e = Fin c \<and> 0 < c \<and> e_travelTime e = Fin b \<and> 0 < b"
  then have e: "map_of (edges g) (edge_key fromId toId) = Some e" by simp
  from h have "js_lt (Fin (- c)) (Fin 0) \<and>
      (\<exists>g' e'. updateEdgeLoad g fromId toId (Fin (- c)) = Inr g' \<and>
         map_of (edges g') (edge_key fromId toId) = Some e' \<and>
         e_currentTravelTime e' = Some (Fin 0) \<and> js_lt (Fin 0) (Fin b))"
    by (simp add: updateEdgeLoad_Some [OF e] update_conv')
  then show "\<exists>l g' e' t. js_lt l (Fin 0) \<and> updateEdgeLoad g fromId toId l = Inr g' \<and>
         map_of (edges g') (edge_key fromId toId) = Some e' \<and>
         e_currentTravelTime e' = Some t \<and> js_lt t (Fin b)"
    by blast
  from h have "1 + - (2 * c) / c = - 1"
    by simp
  with h have "js_lt (Fin (- (2 * c))) (Fin 0) \<and>
      (\<exists>g' e'. updateEdgeLoad g fromId toId (Fin (- (2 * c))) = Inr g' \<and>
         map_of (edges g') (edge_key fromId toId) = Some e' \<and>
         e_currentTravelTime e' = Some (Fin (- b)) \<and> js_lt (Fin (- b)) (Fin 0) \<and>
         default_weight (Some e') = Inr (Fin (- b)))"
    by (simp add: updateEdgeLoad_Some [OF e] update_conv' default_weight_def default_cost_def)
  then show "\<exists>l g' e' t. js_lt l (Fin 0) \<and> updateEdgeLoad g fromId toId l = Inr g' \<and>
         map_of (edges g') (edge_key fromId toId) = Some e' \<and>
         e_currentTravelTime e' = Some t \<and> js_lt t (Fin 0) \<and>
         default_weight (Some e') = Inr t"
    by blast
next
  show "found_route (findShortestPath detour_graph ''A'' ''C'' None) =
      Some ([''A'', ''C''], Fin 2)"
    by code_simp
next
  show "found_route (and_then (updateEdgeLoad detour_graph ''A'' ''B'' (Fin (- 300)))
       (\<lambda>g'. findShortestPath g' ''A'' ''C'' None)) = Some ([''A'', ''B'', ''C''], Fin (- 5))"
    by code_simp
qed

text \<open>
  On the scenario graph: a negative load on \<open>A\<rightarrow>B\<close> (base 5, capacity 100) leaves a
  negative cost, the load \<open>-200\<close> is stored as given, and there is no edge \<open>C\<rightarrow>A\<close> to
  update.
\<close>

theorem updateEdgeLoad_no_validation_witness:
  "(\<exists>l g' e' t. js_lt l (Fin 0) \<and> updateEdgeLoad abc_graph ''A'' ''B'' l = Inr g' \<and>
      map_of (edges g') (edge_key ''A'' ''B'') = Some e' \<and>
      e_currentTravelTime e' = Some t \<and> js_lt t (Fin 0) \<and>
      default_weight (Some e') = Inr t) \<and>
   (\<exists>g' e'. updateEdgeLoad abc_graph ''A'' ''B'' (Fin (- 200)) = Inr g' \<and>
      map_of (edges g') (edge_key ''A'' ''B'') = Some e' \<and> e_currentLoad e' = Fin (- 200)) \<and>
   (\<exists>err. updateEdgeLoad abc_graph ''C'' ''A'' (Fin 1) = Inl err)"
proof -
  have h: "map_of (edges abc_graph) (edge_key ''A'' ''B'') = Some (scenario_edge ''A'' ''B'' 5) \<and>
      e_capacity (scenario_edge ''A'' ''B'' 5) = Fin 100 \<and> (0::rat) < 100 \<and>
      e_travelTime (scenario_edge ''A'' ''B'' 5) = Fin 5 \<and> (0::rat) < 5"
    by (simp add: abc_edge_AB scenario_edge_def)
  have none: "map_of (edges abc_graph) (edge_key ''C'' ''A'') = None"
    by (simp add: abc_graph_def edge_key_def)
  note inst = updateEdgeLoad_no_validation [of abc_graph "''A''" "''B''" "Fin (- 200)"]
  note below = inst [THEN conjunct2, THEN conjunct2, THEN conjunct1, THEN spec, THEN spec,
      THEN spec, THEN mp, OF h, THEN conjunct2]
  note stored = inst [THEN conjunct2, THEN conjunct1, THEN spec, THEN mp, OF abc_edge_AB]
  from updateEdgeLoad_no_validation [of abc_graph "''C''" "''A''" "Fin 1", THEN conjunct1] none
  have "\<exists>err. updateEdgeLoad abc_graph ''C'' ''A'' (Fin 1) = Inl err" by simp
  with below stored show ?thesis by (intro conjI)
qed

text \<open>
  No number of the second scenario is rounded: \<open>-300 / 100\<close>, \<open>1 - 3\<close> and \<open>5 * -2\<close> are
  whole, and the update with the rounding of binary64 leaves the same graph.
\<close>

lemma detour_update_exact:
  "updateEdgeLoad64 detour_graph ''A'' ''B'' (Fin (- 300)) =
   updateEdgeLoad detour_graph ''A'' ''B'' (Fin (- 300))"
  by code_simp

section \<open>The search from a node to itself\<close>

text \<open>
  The first round of the main loop selects the start node: it is the only node at a
  distance below \<open>Infinity\<close>.
\<close>

lemma init_distances_fold:
  "foldl (\<lambda>d k. d(k \<mapsto> (if k = a then Fin 0 else PInf))) d0 ks k =
     (if k \<in> set ks then Some (if k = a then Fin 0 else PInf) else d0 k)"
  by (induction ks arbitrary: d0) auto

lemma dist_get_init:
  "k \<in> set ks \<Longrightarrow> dist_get (init_distances a ks) k = (if k = a then Fin 0 else PInf)"
  by (simp add: dist_get_def init_distances_def init_distances_fold)

lemma set_fold_set_add: "set (foldl set_add acc ks) = set acc \<union> set ks"
  by (induction ks arbitrary: acc) (auto simp: set_add_def)

lemma set_init_unvisited: "set (init_unvisited ks) = set ks"
  by (simp add: init_unvisited_def set_fold_set_add)

lemma find_min_keep:
  "\<forall>n\<in>set us. \<not> js_lt (dist_get d n) m \<Longrightarrow> find_min d us (cur, m) = (cur, m)"
  by (induction us) (auto simp: Let_def)

lemma find_min_start:
  assumes "a \<in> set us" and "dist_get d a = Fin 0"
    and "\<forall>n\<in>set us. n \<noteq> a \<longrightarrow> dist_get d n = PInf"
  shows "find_min d us (None, PInf) = (Some a, Fin 0)"
  using assms
proof (induction us)
  case Nil
  then show ?case by simp
next
  case (Cons n us)
  show ?case
  proof (cases "n = a")
    case True
    have "\<forall>x\<in>set us. \<not> js_lt (dist_get d x) (Fin 0)"
    proof
      fix x assume "x \<in> set us"
      with Cons.prems show "\<not> js_lt (dist_get d x) (Fin 0)"
        by (cases "x = a") simp_all
    qed
    then show ?thesis
      using True Cons.prems by (simp add: find_min_keep)
  next
    case False
    then show ?thesis using Cons by simp
  qed
qed

lemma find_min_initial:
  "a \<in> set ks \<Longrightarrow>
   find_min (init_distances a ks) (init_unvisited ks) (None, PInf) = (Some a, Fin 0)"
  by (rule find_min_start) (simp_all add: set_init_unvisited dist_get_init)

lemma search_stops_at_start:
  assumes "map_of (nodes g) a = Some n"
  shows "dijkstra g gw a (init_unvisited (map fst (nodes g)))
           (init_distances a (map fst (nodes g))) Map.empty = Inr Map.empty"
proof -
  from assms have mem: "a \<in> set (map fst (nodes g))"
    by (metis map_of_SomeD image_eqI fst_conv set_map)
  then have "init_unvisited (map fst (nodes g)) \<noteq> []"
    using set_init_unvisited [of "map fst (nodes g)"] by auto
  with find_min_initial [OF mem] show ?thesis
    by (subst dijkstra.simps) simp
qed

text \<open>
  C3. For a node \<open>a\<close> of the graph, \<open>findShortestPath(a, a)\<close> leaves the main loop in
  its first round (\<open>current === endId\<close>) with \<open>previous\<close> empty, and so returns through
  the branch \<open>previous.get(endId) === undefined\<close>: the result is
  \<open>{found: false, distance: Infinity, path: []}\<close>, not the single-node path \<open>[a]\<close>.
\<close>

theorem findShortestPath_same_node:
  assumes "map_of (nodes g) a = Some n"
  shows "findShortestPath g a a weightFn = Inr NotFound"
proof -
  have "dijkstra g (getWeight weightFn) a (init_unvisited (map fst (nodes g)))
          (init_distances a (map fst (nodes g))) Map.empty = Inr Map.empty"
    using assms by (rule search_stops_at_start)
  with assms show ?thesis
    by (simp add: findShortestPath_def)
qed

text \<open>On the scenario graph, from \<open>A\<close> to \<open>A\<close>.\<close>

theorem findShortestPath_same_node_witness:
  "findShortestPath abc_graph ''A'' ''A'' None = Inr NotFound"
proof -
  have "map_of (nodes abc_graph) ''A'' =
      Some \<lparr>n_id = ''A'', n_connections = [''B'', ''C''], n_attrs = []\<rparr>"
    by (simp add: abc_graph_def)
  from findShortestPath_same_node [OF this] show ?thesis .
qed

section \<open>Nodes under \<open>addEdge\<close> and in the working copy\<close>

text \<open>
  \<open>addEdge\<close> keeps the node identifiers and only adds neighbours. For a graph whose
  node identifiers are distinct (as the keys of a \<open>Map\<close> are), the working copy of
  \<open>findAlternativePaths\<close> starts with the nodes of the graph, neighbour sets included.
\<close>

lemma update_fresh: "k \<notin> fst ` set al \<Longrightarrow> AList.update k v al = al @ [(k, v)]"
  by (induction al) auto

lemma copy_nodes_fold:
  "distinct (map fst (pre @ ns)) \<Longrightarrow>
   foldl (\<lambda>tg (nodeId, n). addNode tg nodeId (node_to_data n)) \<lparr>nodes = pre, edges = es\<rparr> ns =
     \<lparr>nodes = pre @ ns, edges = es\<rparr>"
proof (induction ns arbitrary: pre)
  case Nil
  then show ?case by simp
next
  case (Cons a ns)
  obtain k n where a: "a = (k, n)" by (cases a)
  with Cons.prems have fresh: "k \<notin> fst ` set pre" by auto
  have "addNode \<lparr>nodes = pre, edges = es\<rparr> k (node_to_data n) =
      \<lparr>nodes = pre @ [(k, n)], edges = es\<rparr>"
    by (simp add: addNode_def node_to_data_def update_fresh [OF fresh])
  moreover from Cons.prems a have "distinct (map fst ((pre @ [(k, n)]) @ ns))" by simp
  ultimately show ?case
    using Cons.IH [of "pre @ [(k, n)]"] a by simp
qed

lemma copy_nodes_distinct:
  "distinct (map fst ns) \<Longrightarrow> copy_nodes ns = \<lparr>nodes = ns, edges = []\<rparr>"
  using copy_nodes_fold [of "[]" ns "[]"] by (simp add: copy_nodes_def empty_graph_def)

definition nodes_kept :: "graph \<Rightarrow> graph \<Rightarrow> bool" where
  "nodes_kept g g' \<longleftrightarrow>
     map fst (nodes g') = map fst (nodes g) \<and>
     (\<forall>k n. map_of (nodes g) k = Some n \<longrightarrow>
        (\<exists>n'. map_of (nodes g') k = Some n' \<and>
           set (n_connections n) \<subseteq> set (n_connections n')))"

lemma nodes_kept_refl: "nodes g' = nodes g \<Longrightarrow> nodes_kept g g'"
  by (simp add: nodes_kept_def)

lemma nodes_kept_trans:
  assumes "nodes_kept g g'" and "nodes_kept g' g''"
  shows "nodes_kept g g''"
  unfolding nodes_kept_def
proof (intro conjI allI impI)
  from assms show "map fst (nodes g'') = map fst (nodes g)"
    by (simp add: nodes_kept_def)
next
  fix k n
  assume "map_of (nodes g) k = Some n"
  with assms(1) obtain n' where n': "map_of (nodes g') k = Some n'"
    "set (n_connections n) \<subseteq> set (n_connections n')"
    unfolding nodes_kept_def by blast
  with assms(2) obtain n'' where "map_of (nodes g'') k = Some n''"
    "set (n_connections n') \<subseteq> set (n_connections n'')"
    unfolding nodes_kept_def by blast
  with n' show "\<exists>n'. map_of (nodes g'') k = Some n' \<and>
      set (n_connections n) \<subseteq> set (n_connections n')"
    by blast
qed

lemma add_connection_kept: "add_connection g a b = Inr g' \<Longrightarrow> nodes_kept g g'"
proof -
  assume r: "add_connection g a b = Inr g'"
  then obtain n where n: "map_of (nodes g) a = Some n"
    and g': "g' = g\<lparr>nodes := AList.update a
                 (n\<lparr>n_connections := set_add (n_connections n) b\<rparr>) (nodes g)\<rparr>"
    by (auto simp: add_connection_def split: option.splits)
  from n have "a \<in> set (map fst (nodes g))"
    by (metis map_of_SomeD image_eqI fst_conv set_map)
  then have "map fst (nodes g') = map fst (nodes g)"
    by (simp add: g' update_keys)
  moreover have "set (n_connections n) \<subseteq> set (set_add (n_connections n) b)"
    by (auto simp: set_add_def)
  ultimately show ?thesis
    using n by (auto simp: nodes_kept_def g' update_conv')
qed

lemma addEdge_kept: "addEdge g fromId toId data = Inr g' \<Longrightarrow> nodes_kept g g'"
proof -
  assume r: "addEdge g fromId toId data = Inr g'"
  let ?g0 = "g\<lparr>edges := AList.update (edge_key fromId toId)
      (mk_edge (edge_key fromId toId) fromId toId data) (edges g)\<rparr>"
  from r obtain g1 where g1: "add_connection ?g0 fromId toId = Inr g1"
    by (auto simp: addEdge_def Let_def split: if_splits sum.splits)
  have k1: "nodes_kept g g1"
    using nodes_kept_trans [OF nodes_kept_refl add_connection_kept [OF g1]] by simp
  show ?thesis
  proof (cases "d_bidirectional data = Some True")
    case False
    with r g1 have "g' = g1"
      by (auto simp: addEdge_def Let_def split: if_splits)
    with k1 show ?thesis by simp
  next
    case True
    let ?g2 = "g1\<lparr>edges := AList.update (edge_key toId fromId)
        (mk_edge (edge_key toId fromId) toId fromId data) (edges g1)\<rparr>"
    from True r g1 have "add_connection ?g2 toId fromId = Inr g'"
      by (auto simp: addEdge_def Let_def split: if_splits)
    from add_connection_kept [OF this] have "nodes_kept ?g2 g'" .
    moreover have "nodes_kept g1 ?g2" by (simp add: nodes_kept_refl)
    ultimately show ?thesis
      using k1 nodes_kept_trans by blast
  qed
qed

lemma copy_edges_kept: "copy_edges tg es = Inr tg' \<Longrightarrow> nodes_kept tg tg'"
proof (induction es arbitrary: tg)
  case Nil
  then show ?case by (simp add: nodes_kept_refl)
next
  case (Cons a es)
  obtain edgeId e where a: "a = (edgeId, e)" by (cases a)
  show ?case
  proof (cases "map_of (edges tg) edgeId \<noteq> None")
    case True
    with Cons a show ?thesis by simp
  next
    case False
    with Cons.prems a obtain tg1 where
      t1: "addEdge tg (e_from e) (e_to e) ((edge_to_data e)\<lparr>d_bidirectional := Some False\<rparr>) = Inr tg1"
      and t2: "copy_edges tg1 es = Inr tg'"
      by (auto split: sum.splits)
    from addEdge_kept [OF t1] Cons.IH [OF t2] show ?thesis
      by (rule nodes_kept_trans)
  qed
qed

section \<open>Bidirectional edges and \<open>createKachiDhamNetwork\<close>\<close>

text \<open>
  The records of the network data: a node record has an \<open>id\<close> and attributes, an edge
  record is the \<open>data\<close> of \<open>addEdge\<close> with its \<open>from\<close> and \<open>to\<close> among the properties.
  \<open>createKachiDhamNetwork\<close> passes each record whole, an edge record with
  \<open>bidirectional: edge.bidirectional !== false\<close>. A record without \<open>from\<close> or \<open>to\<close>
  makes \<open>addEdge\<close> look \<open>undefined\<close> up among the nodes, which throws.
\<close>

record node_input =
  ni_id :: string
  ni_attrs :: attrs

fun add_all_edges :: "graph \<Rightarrow> edge_data list \<Rightarrow> error + graph" where
  "add_all_edges g [] = Inr g"
| "add_all_edges g (e # es) =
     (case (d_from e, d_to e) of
        (Some fromId, Some toId) \<Rightarrow>
          (case addEdge g fromId toId
                  (e\<lparr>d_bidirectional := Some (d_bidirectional e \<noteq> Some False)\<rparr>) of
             Inl err \<Rightarrow> Inl err
           | Inr g' \<Rightarrow> add_all_edges g' es)
      | _ \<Rightarrow> Inl ConstructionError)"

definition createKachiDhamNetwork :: "node_input list \<Rightarrow> edge_data list \<Rightarrow> error + graph" where
  "createKachiDhamNetwork ns es =
     add_all_edges
       (foldl (\<lambda>g n. addNode g (ni_id n)
            \<lparr>nd_id = Some (ni_id n), nd_connections = None, nd_attrs = ni_attrs n\<rparr>)
          empty_graph ns)
       es"

text \<open>An edge record as the network data has them, between two nodes \<open>A\<close> and \<open>B\<close>.\<close>

definition road_record :: edge_data where
  "road_record =
     no_data\<lparr>d_from := Some ''A'', d_to := Some ''B'', d_distance := Some (Fin 2),
       d_travelTime := Some (Fin 5), d_capacity := Some (Fin 100)\<rparr>"

definition ab_nodes :: graph where
  "ab_nodes = addNode (addNode empty_graph ''A'' no_node_data) ''B'' no_node_data"

text \<open>
  C8. \<open>addEdge(A, B, data)\<close> with \<open>data\<close> an edge record of the network data marked
  bidirectional, the call \<open>createKachiDhamNetwork\<close> makes for every record: the object
  literal of the reverse edge writes \<open>from: toId, to: fromId\<close> and then \<open>...data\<close>, whose
  \<open>from\<close> and \<open>to\<close> replace them. The edge stored under \<open>"B-A"\<close> has \<open>from\<close> \<open>A\<close> and
  \<open>to\<close> \<open>B\<close>.
\<close>

theorem addEdge_bidirectional_reverse_fields:
  "createKachiDhamNetwork
     [\<lparr>ni_id = ''A'', ni_attrs = []\<rparr>, \<lparr>ni_id = ''B'', ni_attrs = []\<rparr>] [road_record] =
     addEdge ab_nodes ''A'' ''B'' (road_record\<lparr>d_bidirectional := Some True\<rparr>) \<and>
   and_then (addEdge ab_nodes ''A'' ''B'' (road_record\<lparr>d_bidirectional := Some True\<rparr>))
     (\<lambda>g. Inr (map_option (\<lambda>e. (e_id e, e_from e, e_to e))
                  (map_of (edges g) (edge_key ''B'' ''A'')))) =
     Inr (Some (''B-A'', ''A'', ''B''))"
  by code_simp

text \<open>
  When \<open>data\<close> carries no \<open>id\<close>, \<open>from\<close> or \<open>to\<close> and the two identifiers differ, the
  two directed edges are as described: the reverse edge runs from \<open>toId\<close> to \<open>fromId\<close>
  with the base metrics of the forward edge, and \<open>updateEdgeLoad\<close> on one direction
  leaves the edge of the other direction as it is.
\<close>

lemma add_connection_edges:
  "add_connection g a b = Inr g' \<Longrightarrow> edges g' = edges g"
  by (auto simp: add_connection_def split: option.splits)

lemma add_connection_returns:
  "map_of (nodes g) a \<noteq> None \<Longrightarrow> \<exists>g'. add_connection g a b = Inr g'"
  by (auto simp: add_connection_def split: option.splits)

lemma addEdge_bidirectional_plain:
  assumes nodes: "map_of (nodes g) fromId \<noteq> None" "map_of (nodes g) toId \<noteq> None"
    and bi: "d_bidirectional data = Some True"
    and plain: "d_id data = None" "d_from data = None" "d_to data = None"
    and keys: "edge_key fromId toId \<noteq> edge_key toId fromId"
  shows "\<exists>g' fwd rev. addEdge g fromId toId data = Inr g' \<and>
      map_of (edges g') (edge_key fromId toId) = Some fwd \<and>
      map_of (edges g') (edge_key toId fromId) = Some rev \<and>
      e_id rev = edge_key toId fromId \<and> e_from rev = toId \<and> e_to rev = fromId \<and>
      e_distance rev = e_distance fwd \<and> e_travelTime rev = e_travelTime fwd \<and>
      e_capacity rev = e_capacity fwd \<and> e_speedLimit rev = e_speedLimit fwd \<and>
      (\<forall>load. \<exists>g''. updateEdgeLoad g' fromId toId load = Inr g'' \<and>
         map_of (edges g'') (edge_key toId fromId) = Some rev) \<and>
      (\<forall>load. \<exists>g''. updateEdgeLoad g' toId fromId load = Inr g'' \<and>
         map_of (edges g'') (edge_key fromId toId) = Some fwd)"
proof -
  let ?fwd = "mk_edge (edge_key fromId toId) fromId toId data"
  let ?rev = "mk_edge (edge_key toId fromId) toId fromId data"
  let ?g0 = "g\<lparr>edges := AList.update (edge_key fromId toId) ?fwd (edges g)\<rparr>"
  from nodes(1) add_connection_returns [of ?g0 fromId toId]
  obtain g1 where g1: "add_connection ?g0 fromId toId = Inr g1" by auto
  from add_connection_edges [OF g1] have e1: "edges g1 = edges ?g0" .
  from add_connection_kept [OF g1] nodes(2) have "map_of (nodes g1) toId \<noteq> None"
    unfolding nodes_kept_def by fastforce
  let ?g2 = "g1\<lparr>edges := AList.update (edge_key toId fromId) ?rev (edges g1)\<rparr>"
  from \<open>map_of (nodes g1) toId \<noteq> None\<close> add_connection_returns [of ?g2 toId fromId]
  obtain g' where g': "add_connection ?g2 toId fromId = Inr g'" by auto
  from add_connection_edges [OF g'] e1
  have e': "edges g' = AList.update (edge_key toId fromId) ?rev
      (AList.update (edge_key fromId toId) ?fwd (edges g))"
    by simp
  from nodes bi g1 g' have r: "addEdge g fromId toId data = Inr g'"
    by (simp add: addEdge_def Let_def)
  from keys have f: "map_of (edges g') (edge_key fromId toId) = Some ?fwd"
    and v: "map_of (edges g') (edge_key toId fromId) = Some ?rev"
    by (simp_all add: e' update_conv')
  have fields: "e_id ?rev = edge_key toId fromId \<and> e_from ?rev = toId \<and> e_to ?rev = fromId \<and>
      e_distance ?rev = e_distance ?fwd \<and> e_travelTime ?rev = e_travelTime ?fwd \<and>
      e_capacity ?rev = e_capacity ?fwd \<and> e_speedLimit ?rev = e_speedLimit ?fwd"
    using plain by (simp add: mk_edge_def)
  have u1: "\<exists>g''. updateEdgeLoad g' fromId toId load = Inr g'' \<and>
         map_of (edges g'') (edge_key toId fromId) = Some ?rev" for load
    using keys v by (simp add: updateEdgeLoad_Some [OF f] update_conv')
  have u2: "\<exists>g''. updateEdgeLoad g' toId fromId load = Inr g'' \<and>
         map_of (edges g'') (edge_key fromId toId) = Some ?fwd" for load
    using keys f by (simp add: updateEdgeLoad_Some [OF v] update_conv')
  from r f v fields u1 u2 show ?thesis by blast
qed

section \<open>Neighbour sets and \<open>addNode\<close> on an existing identifier\<close>

text \<open>
  C9. After \<open>addNode(A)\<close>, \<open>addNode(B)\<close>, \<open>addEdge(A, B)\<close> the neighbour set of \<open>A\<close> is
  \<open>{B}\<close>. A further \<open>addNode(A)\<close> stores a node with a fresh empty set under \<open>A\<close> and
  leaves the edges alone: the edge \<open>"A-B"\<close> with \<open>to\<close> \<open>B\<close> is still stored, \<open>B\<close> is no
  neighbour of \<open>A\<close> any more, and \<open>findShortestPath(A, B)\<close>, which found \<open>[A, B]\<close> before,
  finds nothing.
\<close>

theorem addNode_again_drops_neighbours:
  "and_then (addEdge ab_nodes ''A'' ''B'' no_data)
     (\<lambda>g. Inr (map_option n_connections (map_of (nodes g) ''A''),
                map_option n_connections (map_of (nodes (addNode g ''A'' no_node_data)) ''A''),
                map_option e_to
                  (map_of (edges (addNode g ''A'' no_node_data)) (edge_key ''A'' ''B'')))) =
     Inr (Some [''B''], Some [], Some ''B'') \<and>
   and_then (addEdge ab_nodes ''A'' ''B'' no_data)
     (\<lambda>g. and_then (findShortestPath g ''A'' ''B'' None)
        (\<lambda>r. Inr (case r of NotFound \<Rightarrow> None | Found p \<Rightarrow> Some (p_path p)))) =
     Inr (Some [''A'', ''B'']) \<and>
   and_then (addEdge ab_nodes ''A'' ''B'' no_data)
     (\<lambda>g. findShortestPath (addNode g ''A'' no_node_data) ''A'' ''B'' None) = Inr NotFound"
  by code_simp

section \<open>The reported travel time\<close>

text \<open>
  Summing a cost function over an edge sequence: from 0, in the order of the sequence,
  as the loop of \<open>findShortestPath\<close> adds the travel times.
\<close>

fun route_cost_from :: "weight_fn \<Rightarrow> jsnum \<Rightarrow> edge list \<Rightarrow> error + jsnum" where
  "route_cost_from w acc [] = Inr acc"
| "route_cost_from w acc (e # es) =
     (case w (Some e) of
        Inl err \<Rightarrow> Inl err
      | Inr c \<Rightarrow> route_cost_from w (js_add acc c) es)"

definition route_cost :: "weight_fn \<Rightarrow> edge list \<Rightarrow> error + jsnum" where
  "route_cost w es = route_cost_from w (Fin 0) es"

definition distance_weight :: weight_fn where
  "distance_weight eo = (case eo of None \<Rightarrow> Inl TypeError | Some e \<Rightarrow> Inr (e_distance e))"

text \<open>The shortest path of the scenario graph from \<open>A\<close> to \<open>C\<close>.\<close>

definition abc_shortest :: found_path where
  "abc_shortest =
     \<lparr>p_path = [''A'', ''B'', ''C''],
      p_edges = [scenario_edge ''A'' ''B'' 5, scenario_edge ''B'' ''C'' 5],
      p_distance = Fin 2, p_travelTime = Fin 10\<rparr>"

lemma path_totals_cost:
  "path_totals es xs (d, t, acc) = Inr (d', t', acc') \<Longrightarrow>
   \<exists>new. acc' = acc @ new \<and> route_cost_from default_weight t new = Inr t'"
proof (induction xs arbitrary: d t acc)
  case Nil
  then show ?case by simp
next
  case (Cons a xs)
  show ?case
  proof (cases xs)
    case Nil
    with Cons.prems show ?thesis by simp
  next
    case (Cons b rest)
    with Cons.prems obtain e where e: "map_of es (edge_key a b) = Some e"
      and rec: "path_totals es xs
          (js_add d (e_distance e), js_add t (default_cost e), acc @ [e]) = Inr (d', t', acc')"
      by (auto split: option.splits)
    from Cons.IH [OF rec] obtain new where
      "acc' = (acc @ [e]) @ new"
      "route_cost_from default_weight (js_add t (default_cost e)) new = Inr t'"
      by blast
    then have "acc' = acc @ (e # new) \<and> route_cost_from default_weight t (e # new) = Inr t'"
      by (simp add: default_weight_def)
    then show ?thesis by blast
  qed
qed

text \<open>
  C4, as amended. Whatever the weight function of the search, default or injected, the
  \<open>travelTime\<close> of a found result is the sum over the returned edge sequence of the
  default cost \<open>currentTravelTime || travelTime\<close>. For the default weight function that
  is the cost function of the search.
\<close>

theorem findShortestPath_travelTime_sum:
  assumes "findShortestPath g startId endId weightFn = Inr (Found p)"
  shows "route_cost default_weight (p_edges p) = Inr (p_travelTime p)"
proof -
  from assms obtain path td tt es where
    tot: "path_totals (edges g) path (Fin 0, Fin 0, []) = Inr (td, tt, es)"
    and p: "p = \<lparr>p_path = path, p_edges = es, p_distance = td, p_travelTime = tt\<rparr>"
    by (auto simp: findShortestPath_def split: if_splits sum.splits option.splits prod.splits)
  from path_totals_cost [OF tot] have "route_cost_from default_weight (Fin 0) es = Inr tt"
    by simp
  with p show ?thesis by (simp add: route_cost_def)
qed

text \<open>On the scenario graph: \<open>[A, B, C]\<close>, 5 + 5 = 10.\<close>

theorem findShortestPath_travelTime_sum_witness:
  "findShortestPath abc_graph ''A'' ''C'' None = Inr (Found abc_shortest) \<and>
   route_cost default_weight (p_edges abc_shortest) = Inr (Fin 10)"
proof -
  have f: "findShortestPath abc_graph ''A'' ''C'' None = Inr (Found abc_shortest)"
    by code_simp
  from findShortestPath_travelTime_sum [OF f] f show ?thesis
    by (simp add: abc_shortest_def)
qed

text \<open>
  C4 as stated fails for an injected cost function. With the edge's distance as cost the
  search on the scenario graph returns \<open>[A, C]\<close> (distance 1 against 2); the reported
  \<open>travelTime\<close> is 20, the sum of the injected cost over the returned edge is 1.
\<close>

theorem injected_cost_counterexample:
  "findShortestPath abc_graph ''A'' ''C'' (Some distance_weight) =
     Inr (Found \<lparr>p_path = [''A'', ''C''], p_edges = [scenario_edge ''A'' ''C'' 20],
       p_distance = Fin 1, p_travelTime = Fin 20\<rparr>) \<and>
   route_cost distance_weight [scenario_edge ''A'' ''C'' 20] = Inr (Fin 1)"
  by code_simp

section \<open>Alternative paths: distinct, and how many\<close>

text \<open>
  A path is appended only when \<open>pathExists\<close> is false for it, and paths with the same
  node sequence have the same \<open>join('-')\<close>. Each round of the outer loop appends at most
  one path.
\<close>

lemma pathExists_mem: "p \<in> set paths \<Longrightarrow> pathExists paths (p_path p)"
  by (induction paths) auto

lemma try_edges_result:
  "try_edges tg startId endId paths xs = Inr (tg', paths') \<Longrightarrow>
   paths' = paths \<or> (\<exists>np. paths' = paths @ [np] \<and> \<not> pathExists paths (p_path np))"
proof (induction tg startId endId paths xs arbitrary: tg' paths' rule: try_edges.induct)
  case (1 tg startId endId paths fromId toId rest)
  then show ?case
    by (auto simp: Let_def split: sum.splits sp_result.splits if_splits)
qed simp_all

lemma alt_loop_result:
  "alt_loop n i tg startId endId paths = Inr ps \<Longrightarrow> distinct (map p_path paths) \<Longrightarrow>
   length paths = i \<Longrightarrow> distinct (map p_path ps) \<and> length ps \<le> i + n"
proof (induction n arbitrary: i tg paths)
  case 0
  then show ?case by simp
next
  case (Suc n)
  from Suc.prems(1) obtain tg' paths' where
    te: "try_edges tg startId endId paths (p_path (paths ! (i - 1))) = Inr (tg', paths')"
    and rest: "(if length paths' \<le> i then Inr paths'
                else alt_loop n (Suc i) tg' startId endId paths') = Inr ps"
    by (auto split: if_splits sum.splits)
  from try_edges_result [OF te] show ?case
  proof
    assume "paths' = paths"
    with rest Suc.prems show ?thesis by simp
  next
    assume "\<exists>np. paths' = paths @ [np] \<and> \<not> pathExists paths (p_path np)"
    then obtain np where np: "paths' = paths @ [np]" "\<not> pathExists paths (p_path np)"
      by blast
    then have "p_path np \<notin> set (map p_path paths)"
      using pathExists_mem by auto
    with Suc.prems np have d: "distinct (map p_path paths')" and l: "length paths' = Suc i"
      by simp_all
    from rest l have "alt_loop n (Suc i) tg' startId endId paths' = Inr ps"
      by simp
    from Suc.IH [OF this d l] show ?thesis by simp
  qed
qed







section \<open>The edge suppression of \<open>findAlternativePaths\<close>\<close>

text \<open>
  What the search leaves in \<open>previous\<close>: an entry \<open>previous[x] = c\<close> is written while
  \<open>c\<close> is the current node and \<open>x\<close> one of its neighbours, still unvisited. A
  reconstructed path that does not start at its end node has a first step \<open>x\<close> with
  \<open>previous[x] = startId\<close>.
\<close>

lemma build_path_first:
  assumes "build_path p startId cur acc = Some r"
  shows "(cur = Some startId \<and> r = acc) \<or> (\<exists>x rest. r = x # rest \<and> p x = Some startId)"
proof (rule build_path.raw_induct
    [where P = "\<lambda>p s cur acc r. (cur = Some s \<and> r = acc) \<or> (\<exists>x rest. r = x # rest \<and> p x = Some s)",
     OF _ assms])
  fix bp :: "(string \<rightharpoonup> string) \<Rightarrow> string \<Rightarrow> string option \<Rightarrow> string list \<Rightarrow> string list option"
  fix p s cur acc r
  assume IH: "\<And>p s cur acc r. bp p s cur acc = Some r \<Longrightarrow>
      (cur = Some s \<and> r = acc) \<or> (\<exists>x rest. r = x # rest \<and> p x = Some s)"
  assume eq: "(if cur = Some s then Some acc
      else case cur of None \<Rightarrow> bp p s None acc | Some c \<Rightarrow> bp p s (p c) (c # acc)) = Some r"
  show "(cur = Some s \<and> r = acc) \<or> (\<exists>x rest. r = x # rest \<and> p x = Some s)"
  proof (cases "cur = Some s")
    case True
    with eq show ?thesis by auto
  next
    case False
    show ?thesis
    proof (cases cur)
      case None
      with eq have "bp p s None acc = Some r" by simp
      from IH [OF this] show ?thesis by simp
    next
      case (Some c)
      with False eq have "bp p s (p c) (c # acc) = Some r" by simp
      from IH [OF this] show ?thesis by auto
    qed
  qed
qed

lemma relax_previous:
  "relax es gw c U (d, p) ns = Inr (d', p') \<Longrightarrow> p' x = Some y \<Longrightarrow>
   p x = Some y \<or> (y = c \<and> x \<in> set ns \<and> x \<in> set U)"
proof (induction ns arbitrary: d p)
  case Nil
  then show ?case by simp
next
  case (Cons n ns)
  show ?case
  proof (cases "n \<in> set U")
    case False
    with Cons.prems have "relax es gw c U (d, p) ns = Inr (d', p')" by simp
    from Cons.IH [OF this Cons.prems(2)] show ?thesis by auto
  next
    case True
    with Cons.prems(1) obtain w where w: "gw (map_of es (edge_key c n)) = Inr w"
      by (auto split: sum.splits)
    show ?thesis
    proof (cases "js_lt (js_add (dist_get d c) w) (dist_get d n)")
      case lt: True
      with True w Cons.prems(1)
      have "relax es gw c U (d(n \<mapsto> js_add (dist_get d c) w), p(n \<mapsto> c)) ns = Inr (d', p')"
        by (simp add: Let_def)
      from Cons.IH [OF this Cons.prems(2)] True show ?thesis
        by (auto split: if_splits)
    next
      case ge: False
      with True w Cons.prems(1) have "relax es gw c U (d, p) ns = Inr (d', p')"
        by (simp add: Let_def)
      from Cons.IH [OF this Cons.prems(2)] show ?thesis by auto
    qed
  qed
qed

lemma dijkstra_previous:
  "dijkstra g gw endId U d p = Inr p' \<Longrightarrow> p' x = Some c \<Longrightarrow>
   p x = Some c \<or>
   (\<exists>n. map_of (nodes g) c = Some n \<and> x \<in> set (n_connections n) \<and> x \<in> set U \<and> x \<noteq> c)"
proof (induction g gw endId U d p rule: dijkstra.induct)
  case (1 g gw endId unvisited d p)
  show ?case
  proof (cases "unvisited = []")
    case True
    with "1.prems" show ?thesis by (simp add: dijkstra.simps)
  next
    case ne: False
    show ?thesis
    proof (cases "fst (find_min d unvisited (None, PInf))")
      case None
      with ne "1.prems" show ?thesis by (simp add: dijkstra.simps)
    next
      case (Some current)
      show ?thesis
      proof (cases "current = endId")
        case True
        with ne Some "1.prems" show ?thesis by (simp add: dijkstra.simps)
      next
        case False
        from ne Some False "1.prems"(1) obtain currentNode d' p1 where
          node: "map_of (nodes g) current = Some currentNode"
          and rel: "relax (edges g) gw current (removeAll current unvisited) (d, p)
                      (n_connections currentNode) = Inr (d', p1)"
          and rec: "dijkstra g gw endId (removeAll current unvisited) d' p1 = Inr p'"
          by (subst (asm) dijkstra.simps) (auto split: option.splits sum.splits)
        from "1.IH" [OF ne Some False node rel refl rec "1.prems"(2)]
        show ?thesis
        proof
          assume "p1 x = Some c"
          from relax_previous [OF rel this] node show ?thesis by auto
        next
          assume "\<exists>n. map_of (nodes g) c = Some n \<and> x \<in> set (n_connections n) \<and>
              x \<in> set (removeAll current unvisited) \<and> x \<noteq> c"
          then show ?thesis by auto
        qed
      qed
    qed
  qed
qed

text \<open>
  A neighbour without a stored edge: the default weight function is called on
  \<open>undefined\<close>. In the first round of the search the current node is the start node and
  every other node is unvisited.
\<close>

lemma relax_undefined_edge:
  "x \<in> set ns \<Longrightarrow> x \<in> set U \<Longrightarrow> map_of es (edge_key c x) = None \<Longrightarrow>
   \<exists>err. relax es default_weight c U (d, p) ns = Inl err"
proof (induction ns arbitrary: d p)
  case Nil
  then show ?case by simp
next
  case (Cons n ns)
  show ?case
  proof (cases "n = x")
    case True
    with Cons.prems show ?thesis by (simp add: default_weight_def)
  next
    case False
    with Cons.prems have "x \<in> set ns" by simp
    from Cons.IH [OF this Cons.prems(2,3)] show ?thesis
      by (auto simp: Let_def split: sum.splits)
  qed
qed

lemma search_undefined_edge:
  assumes s: "map_of (nodes g) s = Some n" and e: "map_of (nodes g) e \<noteq> None"
    and ne: "s \<noteq> e" and x: "x \<in> set (n_connections n)"
    and xk: "x \<in> set (map fst (nodes g))" and xs: "x \<noteq> s"
    and none: "map_of (edges g) (edge_key s x) = None"
  shows "\<exists>err. findShortestPath g s e None = Inl err"
proof -
  let ?ks = "map fst (nodes g)"
  from s have mem: "s \<in> set ?ks"
    by (metis map_of_SomeD image_eqI fst_conv set_map)
  then have nonempty: "init_unvisited ?ks \<noteq> []"
    using set_init_unvisited [of ?ks] by auto
  from xk xs have "x \<in> set (removeAll s (init_unvisited ?ks))"
    by (simp add: set_init_unvisited)
  from relax_undefined_edge [OF x this none]
  obtain err where "relax (edges g) default_weight s (removeAll s (init_unvisited ?ks))
      (init_distances s ?ks, Map.empty) (n_connections n) = Inl err"
    by blast
  with find_min_initial [OF mem] nonempty ne s
  have "dijkstra g default_weight e (init_unvisited ?ks) (init_distances s ?ks) Map.empty = Inl err"
    by (subst dijkstra.simps) simp
  with s e show ?thesis
    by (simp add: findShortestPath_def getWeight_def)
qed

text \<open>
  The first suppression deletes the edge from the start node to the second node of the
  shortest path; the start node still lists that node as a neighbour.
\<close>

lemma first_suppression_throws:
  assumes dist: "distinct (map fst (nodes g))"
    and found: "findShortestPath g s e None = Inr (Found ip)"
    and tg: "copy_edges (copy_nodes (nodes g)) (edges g) = Inr tg"
  shows "\<exists>err. try_edges tg s e paths (p_path ip) = Inl err"
proof -
  from found obtain sn where sn: "map_of (nodes g) s = Some sn"
    and en: "map_of (nodes g) e \<noteq> None"
    by (auto simp: findShortestPath_def split: if_splits)
  have ne: "s \<noteq> e"
  proof
    assume "s = e"
    with search_stops_at_start [OF sn, of default_weight] sn
    have "findShortestPath g s e None = Inr NotFound"
      by (simp add: findShortestPath_def getWeight_def)
    with found show False by simp
  qed
  let ?ks = "map fst (nodes g)"
  from found sn en obtain previous path0 where
    dj: "dijkstra g default_weight e (init_unvisited ?ks) (init_distances s ?ks) Map.empty
           = Inr previous"
    and bp: "build_path previous s (Some e) [] = Some path0"
    and ip: "p_path ip = s # path0"
    by (auto simp: findShortestPath_def getWeight_def
        split: if_splits sum.splits option.splits prod.splits)
  from build_path_first [OF bp] ne obtain x rest where
    path0: "path0 = x # rest" and px: "previous x = Some s"
    by auto
  from dijkstra_previous [OF dj px] sn have
    x: "x \<in> set (n_connections sn)" and xk: "x \<in> set ?ks" and xs: "x \<noteq> s"
    by (auto simp: set_init_unvisited)
  from copy_edges_kept [OF tg] have kept: "nodes_kept \<lparr>nodes = nodes g, edges = []\<rparr> tg"
    by (simp add: copy_nodes_distinct [OF dist])
  from kept have keys: "map fst (nodes tg) = ?ks"
    by (simp add: nodes_kept_def)
  from kept have conn: "\<And>k n. map_of (nodes g) k = Some n \<Longrightarrow>
      \<exists>n'. map_of (nodes tg) k = Some n' \<and> set (n_connections n) \<subseteq> set (n_connections n')"
    by (simp add: nodes_kept_def)
  from conn [OF sn] obtain sn' where sn': "map_of (nodes tg) s = Some sn'"
    and sub: "set (n_connections sn) \<subseteq> set (n_connections sn')"
    by blast
  from en obtain en0 where "map_of (nodes g) e = Some en0" by blast
  from conn [OF this] have en': "map_of (nodes tg) e \<noteq> None"
    by auto
  let ?tg1 = "tg\<lparr>edges := AList.delete (edge_key s x) (edges tg)\<rparr>"
  have "\<exists>err. findShortestPath ?tg1 s e None = Inl err"
  proof (rule search_undefined_edge)
    show "map_of (nodes ?tg1) s = Some sn'" using sn' by simp
    show "map_of (nodes ?tg1) e \<noteq> None" using en' by simp
    show "s \<noteq> e" by (rule ne)
    show "x \<in> set (n_connections sn')" using x sub by blast
    show "x \<in> set (map fst (nodes ?tg1))" using xk keys by simp
    show "x \<noteq> s" by (rule xs)
    show "map_of (edges ?tg1) (edge_key s x) = None" by (simp add: delete_conv')
  qed
  then show ?thesis
    by (auto simp: ip path0 Let_def)
qed

text \<open>
  So \<open>findAlternativePaths\<close> returns no list as soon as a path exists and \<open>k\<close> is at
  least 2.
\<close>

lemma findAlternativePaths_throws:
  assumes "distinct (map fst (nodes g))"
    and "findShortestPath g s e None = Inr (Found ip)"
    and "2 \<le> k"
  shows "\<exists>err. findAlternativePaths g s e k = Inl err"
proof (cases "copy_edges (copy_nodes (nodes g)) (edges g)")
  case (Inl err)
  with assms(2) show ?thesis
    by (simp add: findAlternativePaths_def)
next
  case (Inr tg)
  from assms(3) obtain m where k: "k - Suc 0 = Suc m"
    by (cases "k - Suc 0") auto
  from first_suppression_throws [OF assms(1,2) Inr, of "[ip]"]
  obtain err where "try_edges tg s e [ip] (p_path ip) = Inl err"
    by blast
  then have "alt_loop (k - 1) 1 tg s e [ip] = Inl err"
    by (simp add: k)
  with assms(2) Inr show ?thesis
    by (simp add: findAlternativePaths_def)
qed

section \<open>The scenario: shortest path and alternatives\<close>

text \<open>
  C2. On the scenario graph \<open>findShortestPath(A, C)\<close> returns the path \<open>[A, B, C]\<close> with
  travel time 10. \<open>findAlternativePaths(A, C, 2)\<close> returns no second path: it throws a
  \<open>TypeError\<close>, also after \<open>updateEdgeLoad(A, C, 0)\<close>. The first suppression deletes
  the edge \<open>A-B\<close> from the working copy, whose node \<open>A\<close> still lists \<open>B\<close> as a
  neighbour; the search on the working copy then reads \<open>edge.currentTravelTime\<close> of the
  missing edge.
\<close>

theorem scenario_alternative_paths:
  "findShortestPath abc_graph ''A'' ''C'' None =
     Inr (Found \<lparr>p_path = [''A'', ''B'', ''C''],
       p_edges = [scenario_edge ''A'' ''B'' 5, scenario_edge ''B'' ''C'' 5],
       p_distance = Fin 2, p_travelTime = Fin 10\<rparr>) \<and>
   findAlternativePaths abc_graph ''A'' ''C'' 2 = Inl TypeError \<and>
   and_then (updateEdgeLoad abc_graph ''A'' ''C'' (Fin 0))
     (\<lambda>g. findAlternativePaths g ''A'' ''C'' 2) = Inl TypeError \<and>
   and_then (copy_edges (copy_nodes (nodes abc_graph)) (edges abc_graph))
     (\<lambda>tg. Inr (map_option n_connections (map_of (nodes tg) ''A''))) =
     Inr (Some [''B'', ''C'']) \<and>
   and_then (copy_edges (copy_nodes (nodes abc_graph)) (edges abc_graph))
     (\<lambda>tg. findShortestPath (tg\<lparr>edges := AList.delete (edge_key ''A'' ''B'') (edges tg)\<rparr>)
        ''A'' ''C'' None) = Inl TypeError"
  by code_simp

section \<open>Traffic allocation after the path search\<close>

text \<open>
  C1. For a graph with distinct node identifiers and endpoints between which
  \<open>findShortestPath\<close> finds a path, \<open>distributeTraffic\<close> with \<open>numPaths\<close> at least 2 (the
  default is 3) returns no plan, whatever the number of vehicles: the error thrown by
  \<open>findAlternativePaths\<close> leaves the function.
\<close>

theorem distributeTraffic_throws:
  assumes "distinct (map fst (nodes g))"
    and "findShortestPath g startId endId None = Inr (Found ip)"
    and "2 \<le> numPaths"
  shows "\<exists>err. distributeTraffic g startId endId totalVehicles numPaths = Inl err"
proof -
  from findAlternativePaths_throws [OF assms] obtain err where
    "findAlternativePaths g startId endId numPaths = Inl err"
    by blast
  then show ?thesis
    by (simp add: distributeTraffic_def)
qed

text \<open>On the scenario graph, \<open>distributeTraffic(A, C, 100, 3)\<close>.\<close>

theorem distributeTraffic_throws_witness:
  "distinct (map fst (nodes abc_graph)) \<and>
   findShortestPath abc_graph ''A'' ''C'' None = Inr (Found abc_shortest) \<and>
   (\<exists>err. distributeTraffic abc_graph ''A'' ''C'' (Fin 100) 3 = Inl err)"
proof -
  have d: "distinct (map fst (nodes abc_graph))"
    by (simp add: abc_graph_def)
  have f: "findShortestPath abc_graph ''A'' ''C'' None = Inr (Found abc_shortest)"
    by code_simp
  have n: "(2::nat) \<le> 3" by simp
  from distributeTraffic_throws [OF d f n, of "Fin 100"] d f show ?thesis
    by blast
qed

text \<open>
  The same calls evaluated: with \<open>numPaths\<close> 3 and 2 the error is a \<open>TypeError\<close>, and
  with \<open>numPaths\<close> 1 the single shortest path receives all 100 vehicles.
\<close>

lemma scenario_distributeTraffic:
  "distributeTraffic abc_graph ''A'' ''C'' (Fin 100) 3 = Inl TypeError \<and>
   distributeTraffic abc_graph ''A'' ''C'' (Fin 100) 2 = Inl TypeError \<and>
   and_then (distributeTraffic abc_graph ''A'' ''C'' (Fin 100) 1)
     (\<lambda>plan. Inr (case plan of NoPlan msg \<Rightarrow> None
        | Plan n rs \<Rightarrow> Some (n, map r_path rs, map r_vehicleCount rs))) =
     Inr (Some (Fin 100, [[''A'', ''B'', ''C'']], [Fin 100]))"
  by code_simp

text \<open>
  The allocation itself, on a list of paths. In the words of the specification: each
  path receives the floor of \<open>totalVehicles * (weight / totalWeight)\<close>, the weight being
  the reciprocal of the travel time, and the first path receives the leftover as well.
\<close>

definition spec_allocation :: "rat list \<Rightarrow> int \<Rightarrow> int list" where
  "spec_allocation ts n =
     (let ws = map (\<lambda>t. 1 / t) ts;
          cs = map (\<lambda>w. \<lfloor>of_int n * (w / sum_list ws)\<rfloor>) ws
      in case cs of [] \<Rightarrow> [] | c # rest \<Rightarrow> (c + (n - sum_list cs)) # rest)"

lemma sum_list_floor_le:
  "of_int (sum_list (map (\<lambda>x. \<lfloor>f x\<rfloor>) xs)) \<le> (sum_list (map f xs) :: rat)"
  by (induction xs) (simp_all add: add_mono)

lemma sum_list_pos: "xs \<noteq> [] \<Longrightarrow> \<forall>x\<in>set xs. (0::rat) < x \<Longrightarrow> 0 < sum_list xs"
  by (induction xs) (auto simp: add_pos_nonneg sum_list_nonneg less_imp_le)

lemma shares_scaled:
  "sum_list (map (\<lambda>w. c * (w / d)) ws) = c * (sum_list ws / (d::rat))"
  by (induction ws) (simp_all add: add_divide_distrib distrib_left)

lemma shares_sum:
  assumes "ws \<noteq> []" and "\<forall>w\<in>set ws. (0::rat) < w"
  shows "sum_list (map (\<lambda>w. c * (w / sum_list ws)) ws) = c"
proof -
  from assms have pos: "0 < sum_list ws" by (rule sum_list_pos)
  have "sum_list (map (\<lambda>w. c * (w / sum_list ws)) ws) = c * (sum_list ws / sum_list ws)"
    by (rule shares_scaled)
  with pos show ?thesis by simp
qed

lemma weights_of_paths:
  "map p_travelTime paths = map Fin ts \<Longrightarrow> \<forall>t\<in>set ts. 0 < t \<Longrightarrow>
   map r_weight (map initial_route paths) = map Fin (map (\<lambda>t. 1 / t) ts)"
proof (induction paths arbitrary: ts)
  case Nil
  then show ?case by simp
next
  case (Cons p paths)
  then obtain t ts' where "ts = t # ts'" by (cases ts) auto
  with Cons show ?case by (auto simp: initial_route_def)
qed

lemma fold_weights:
  "map r_weight rs = map Fin ws \<Longrightarrow>
   foldl (\<lambda>a r. js_add a (r_weight r)) (Fin a0) rs = Fin (a0 + sum_list ws)"
proof (induction rs arbitrary: a0 ws)
  case Nil
  then show ?case by simp
next
  case (Cons r rs)
  then obtain w ws' where "ws = w # ws'" by (cases ws) auto
  with Cons show ?case by (auto simp: add.assoc)
qed

lemma floor_counts:
  "map r_weight rs = map Fin ws \<Longrightarrow> W \<noteq> 0 \<Longrightarrow>
   map r_vehicleCount (map (\<lambda>r. r\<lparr>r_vehicleCount :=
       js_floor (js_mul (Fin c) (js_div (r_weight r) (Fin W)))\<rparr>) rs) =
     map (\<lambda>z. Fin (of_int z)) (map (\<lambda>w. \<lfloor>c * (w / W)\<rfloor>) ws)"
proof (induction rs arbitrary: ws)
  case Nil
  then show ?case by simp
next
  case (Cons r rs)
  then obtain w ws' where "ws = w # ws'" by (cases ws) auto
  with Cons show ?case by auto
qed

lemma fold_counts:
  "map r_vehicleCount rs = map (\<lambda>z. Fin (of_int z)) cs \<Longrightarrow>
   foldl (\<lambda>a r. js_add a (r_vehicleCount r)) (Fin (of_int a0)) rs =
     Fin (of_int (a0 + sum_list cs))"
proof (induction rs arbitrary: a0 cs)
  case Nil
  then show ?case by simp
next
  case (Cons r rs)
  then obtain c cs' where cs: "cs = c # cs'" by (cases cs) auto
  with Cons.prems have "r_vehicleCount r = Fin (of_int c)"
    and "map r_vehicleCount rs = map (\<lambda>z. Fin (of_int z)) cs'" by auto
  with Cons.IH [of cs' "a0 + c"] cs show ?case by (simp add: add.assoc)
qed

text \<open>
  For paths with positive travel times and a non-negative whole number of vehicles the
  code computes that allocation: non-negative whole numbers whose sum is the total.
\<close>

lemma allocate_counts:
  assumes ne: "ts \<noteq> []" and pos: "\<forall>t\<in>set ts. 0 < t"
    and tt: "map p_travelTime paths = map Fin ts" and n: "0 \<le> n"
  shows "map r_vehicleCount (allocate paths (Fin (of_int n))) =
           map (\<lambda>z. Fin (of_int z)) (spec_allocation ts n) \<and>
         sum_list (spec_allocation ts n) = n \<and>
         (\<forall>z\<in>set (spec_allocation ts n). 0 \<le> z) \<and>
         sum_vehicles (allocate paths (Fin (of_int n))) = Fin (of_int n)"
proof -
  define ws where "ws = map (\<lambda>t. 1 / t) ts"
  define W where "W = sum_list ws"
  define cs where "cs = map (\<lambda>w. \<lfloor>of_int n * (w / W)\<rfloor>) ws"
  define d0 where "d0 = map initial_route paths"
  define d where "d = map (\<lambda>r. r\<lparr>r_vehicleCount :=
      js_floor (js_mul (Fin (of_int n)) (js_div (r_weight r) (total_weight d0)))\<rparr>) d0"
  from ne have wne: "ws \<noteq> []" by (simp add: ws_def)
  from pos have wpos: "\<forall>w\<in>set ws. 0 < w" by (auto simp: ws_def)
  from wne wpos have Wpos: "0 < W" unfolding W_def by (rule sum_list_pos)
  from weights_of_paths [OF tt pos] have weights: "map r_weight d0 = map Fin ws"
    by (simp add: d0_def ws_def)
  from fold_weights [OF weights, of 0] have tw: "total_weight d0 = Fin W"
    by (simp add: total_weight_def W_def)
  from floor_counts [OF weights, of W "of_int n"] Wpos
  have counts: "map r_vehicleCount d = map (\<lambda>z. Fin (of_int z)) cs"
    by (simp add: d_def tw cs_def)
  from fold_counts [OF counts, of 0] have sv: "sum_vehicles d = Fin (of_int (sum_list cs))"
    by (simp add: sum_vehicles_def)
  have "of_int (sum_list cs) \<le> sum_list (map (\<lambda>w. of_int n * (w / W)) ws)"
    unfolding cs_def using sum_list_floor_le [of "\<lambda>w. of_int n * (w / W)" ws] by simp
  also have "\<dots> = of_int n"
    unfolding W_def using shares_sum [OF wne wpos] by simp
  finally have le: "sum_list cs \<le> n" by simp
  have nonneg: "\<forall>z\<in>set cs. 0 \<le> z"
  proof
    fix z assume "z \<in> set cs"
    then obtain w where "w \<in> set ws" and z: "z = \<lfloor>of_int n * (w / W)\<rfloor>"
      by (auto simp: cs_def)
    with wpos Wpos n have "0 \<le> of_int n * (w / W)" by (simp add: less_imp_le)
    with z show "0 \<le> z" by simp
  qed
  from wne obtain c rest where cs: "cs = c # rest"
    by (cases ws) (auto simp: cs_def)
  have spec: "spec_allocation ts n = (c + (n - sum_list cs)) # rest"
    using cs by (simp add: spec_allocation_def Let_def cs_def W_def ws_def)
  from cs counts obtain r rs where dd: "d = r # rs"
    and r: "r_vehicleCount r = Fin (of_int c)"
    and rs: "map r_vehicleCount rs = map (\<lambda>z. Fin (of_int z)) rest"
    by (cases d) auto
  have rem: "js_sub (Fin (of_int n)) (sum_vehicles d) = Fin (of_int (n - sum_list cs))"
    by (simp add: sv js_sub_def)
  have "allocate paths (Fin (of_int n)) =
      (if js_gt (js_sub (Fin (of_int n)) (sum_vehicles d)) (Fin 0)
       then (case d of [] \<Rightarrow> []
             | r # rs \<Rightarrow> r\<lparr>r_vehicleCount := js_add (r_vehicleCount r)
                 (js_sub (Fin (of_int n)) (sum_vehicles d))\<rparr> # rs)
       else d)"
    unfolding allocate_def Let_def d_def d0_def by (rule refl)
  then have alloc: "allocate paths (Fin (of_int n)) =
      (if 0 < n - sum_list cs
       then r\<lparr>r_vehicleCount := Fin (of_int (c + (n - sum_list cs)))\<rparr> # rs
       else r # rs)"
    unfolding rem by (simp add: js_gt_def dd r)
  have c1: "map r_vehicleCount (allocate paths (Fin (of_int n))) =
      map (\<lambda>z. Fin (of_int z)) (spec_allocation ts n)"
    using le by (auto simp: alloc spec r rs)
  have c2: "sum_list (spec_allocation ts n) = n"
    using cs by (simp add: spec)
  have c3: "\<forall>z\<in>set (spec_allocation ts n). 0 \<le> z"
    using nonneg le cs by (auto simp: spec)
  from fold_counts [OF c1, of 0] c2
  have c4: "sum_vehicles (allocate paths (Fin (of_int n))) = Fin (of_int n)"
    by (simp add: sum_vehicles_def)
  from c1 c2 c3 c4 show ?thesis by blast
qed

end
